theory Spec2Isabelle
  imports Main "HOL-Library.AList"
begin

section \<open>Exceptions and Python helpers\<close>

text \<open>
  Exceptions of the source as values. \<open>ValueError\<close> is what \<open>list.remove\<close> and the two
  policy checks of \<open>mysql/method.py\<close> raise (the message is kept as an English tag of the
  source's message). \<open>KeyError\<close> is what \<open>stmt.inserted[column]\<close> raises for a name that
  is not a column of the target. \<open>SQLAlchemyError\<close> stands for every error of the database layer
  (table exists, unknown column, duplicate entry, lost connection).
  \<open>KeyboardInterrupt\<close> stands for the exceptions that derive from \<open>BaseException\<close> but
  not from \<open>Exception\<close>: the handler \<open>except Exception\<close> of \<open>_session_scope\<close> does not
  catch them.
\<close>

datatype exc = ValueError string | KeyError string | SQLAlchemyError string | KeyboardInterrupt

fun is_Exception :: "exc \<Rightarrow> bool" where
  "is_Exception KeyboardInterrupt = False"
| "is_Exception _ = True"

text \<open>Python's \<open>xs.remove(x)\<close>: drops the first occurrence, raises ValueError when absent.\<close>

definition py_remove :: "'a \<Rightarrow> 'a list \<Rightarrow> exc + 'a list" where
  "py_remove x xs =
     (if x \<in> set xs then Inr (remove1 x xs) else Inl (ValueError ''list.remove(x): x not in list''))"

text \<open>The loop \<open>for k in ks: xs.remove(k)\<close>; the first failing removal ends it.\<close>

fun remove_each :: "'a list \<Rightarrow> 'a list \<Rightarrow> exc + 'a list" where
  "remove_each [] xs = Inr xs"
| "remove_each (k # ks) xs =
     (case py_remove k xs of Inl e \<Rightarrow> Inl e | Inr xs' \<Rightarrow> remove_each ks xs')"

section \<open>Schema descriptors and the merge statement\<close>

datatype val = Null | IntV int | StrV string

type_synonym row = "(string \<times> val) list"

text \<open>
  A column object of SQLAlchemy: \<open>name\<close> is the column's name in the database, \<open>key\<close> the
  key it has in its table's collection (the name unless \<open>key=\<close> was given).
\<close>

record column =
  c_name :: string
  c_key :: string
  c_default :: val

text \<open>
  A mapped table class: what \<open>inspect(cls)\<close> gives (\<open>columns\<close>, \<open>primary_key\<close>), its
  \<open>__tablename__\<close>, and the columns of the unique index that the database holds for it
  (empty: no unique index).
\<close>

record table_class =
  tablename :: string
  columns :: "column list"
  primary_key :: "column list"
  unique_index :: "string list"

text \<open>
  The statement object: \<open>insert(target).from_select(names, query)\<close> with the optional
  \<open>on_duplicate_key_update\<close> dictionary (column name to the name read from
  \<open>stmt.inserted\<close>) and the list of prefixes.
\<close>

record insert_stmt =
  into :: table_class
  names :: "string list"
  select :: "column list"
  on_duplicate :: "(string \<times> string) list option"
  prefixes :: "string list"

text \<open>
  \<open>session.query(*column_list)\<close> as \<open>from_select\<close> reads it: with no column there is
  nothing to select, and the statement cannot be built (InvalidRequestError, one of
  the errors of the database layer, in the library version of the source's date;
  later versions refuse the same input in \<open>on_duplicate_key_update\<close> or when the
  statement is executed: in each of them \<open>_my_insert\<close> raises).
\<close>

definition query :: "column list \<Rightarrow> exc + column list" where
  "query cols =
     (if cols = [] then Inl (SQLAlchemyError ''Query contains no columns with which to SELECT from'')
      else Inr cols)"

definition from_select :: "table_class \<Rightarrow> string list \<Rightarrow> column list \<Rightarrow> insert_stmt" where
  "from_select target ns q =
     \<lparr>into = target, names = ns, select = q, on_duplicate = None, prefixes = []\<rparr>"

text \<open>
  A name given to \<open>from_select\<close> or looked up in \<open>stmt.inserted\<close> is the key of a column
  of the target table; \<open>resolve\<close> gives the column's name in the database.
\<close>

definition resolve :: "table_class \<Rightarrow> string \<Rightarrow> string option" where
  "resolve t k = map_option c_name (find (\<lambda>c. c_key c = k) (columns t))"

text \<open>
  The dictionary comprehension \<open>{column: stmt.inserted[column] for column in names}\<close>:
  a repeated key keeps its first position, as a Python dict does.
\<close>

definition update_dict :: "string list \<Rightarrow> (string \<times> string) list" where
  "update_dict ns = foldl (\<lambda>d c. AList.update c c d) [] ns"

text \<open>
  Lines 80 to 107 of \<open>Operation._my_insert\<close>: the two column lists, the removal of the
  primary key from each, and the statement for the policy. Under \<open>'update'\<close> the
  dictionary reads \<open>stmt.inserted[column]\<close> for every name, which raises KeyError at
  the first name that the target does not have. Two columns of one table differ in
  their key, so the equality of the records stands for the identity of the objects
  that \<open>list.remove\<close> compares.
\<close>

definition my_insert_stmt :: "table_class \<Rightarrow> table_class \<Rightarrow> string \<Rightarrow> exc + insert_stmt" where
  "my_insert_stmt target_table temp_table if_record_exists =
     (let column_list = columns temp_table;
          pk_list = primary_key temp_table;
          bare_column_list = map c_key (columns temp_table);
          bare_pk_list = map c_name (primary_key temp_table)
      in case remove_each bare_pk_list bare_column_list of
           Inl e \<Rightarrow> Inl e
         | Inr bare \<Rightarrow>
            (case remove_each pk_list column_list of
               Inl e \<Rightarrow> Inl e
             | Inr cols \<Rightarrow>
                if if_record_exists = ''update'' then
                  (case query cols of
                     Inl e \<Rightarrow> Inl e
                   | Inr q \<Rightarrow>
                      (case find (\<lambda>c. resolve target_table c = None) bare of
                         Some c \<Rightarrow> Inl (KeyError c)
                       | None \<Rightarrow>
                           Inr ((from_select target_table bare q)
                                  \<lparr>on_duplicate := Some (update_dict bare)\<rparr>)))
                else if if_record_exists = ''ignore'' then
                  (case query cols of
                     Inl e \<Rightarrow> Inl e
                   | Inr q \<Rightarrow>
                       Inr ((from_select target_table bare q)\<lparr>prefixes := [''IGNORE'']\<rparr>))
                else Inl (ValueError ''if_record_exists accepts only update or ignore'')))"

section \<open>The database behind a session\<close>

text \<open>
  The state that the calls on a session act on: the durable rows of the target table,
  the rows as the running transaction sees them, the scratch table of the connection
  (absent until created), the trace of the calls made, and a script of failures of the
  environment: each call of the database layer takes the head of the script, and fails
  with it, without any effect, when it is an exception (lost connection, interrupt).
\<close>

datatype event =
    EvOpen | EvCreate string | EvInsertChunk nat | EvExecute insert_stmt
  | EvCommit | EvRollback | EvClose

record state =
  committed :: "row list"
  working :: "row list"
  scratch :: "row list option"
  log :: "event list"
  faults :: "exc option list"

type_synonym 'a result = "(exc + 'a) \<times> state"

definition engine_call :: "event \<Rightarrow> state \<Rightarrow> exc option \<times> state" where
  "engine_call ev s =
     (case faults s of
        [] \<Rightarrow> (None, s\<lparr>log := log s @ [ev]\<rparr>)
      | f # fs \<Rightarrow> (f, s\<lparr>log := log s @ [ev], faults := fs\<rparr>))"

definition commit :: "state \<Rightarrow> unit result" where
  "commit s =
     (case engine_call EvCommit s of
        (Some e, s') \<Rightarrow> (Inl e, s')
      | (None, s') \<Rightarrow> (Inr (), s'\<lparr>committed := working s'\<rparr>))"

definition rollback :: "state \<Rightarrow> unit result" where
  "rollback s =
     (case engine_call EvRollback s of
        (Some e, s') \<Rightarrow> (Inl e, s')
      | (None, s') \<Rightarrow> (Inr (), s'\<lparr>working := committed s'\<rparr>))"

text \<open>
  Closing releases the transaction (what was not committed is discarded) and the
  connection, and with the connection its temporary table.
\<close>

definition close :: "state \<Rightarrow> unit result" where
  "close s =
     (case engine_call EvClose s of
        (Some e, s') \<Rightarrow> (Inl e, s')
      | (None, s') \<Rightarrow> (Inr (), s'\<lparr>working := committed s', scratch := None\<rparr>))"

text \<open>
  \<open>Operation._session_scope\<close>. The session object is made before the \<open>try\<close>; the body
  and the commit are inside it; \<open>except Exception\<close> rolls back and raises the caught
  error again; \<open>finally\<close> closes on every path. An exception raised by the rollback or by
  the close replaces the one in flight, as in Python.
\<close>

definition try_block :: "(state \<Rightarrow> unit result) \<Rightarrow> state \<Rightarrow> unit result" where
  "try_block body s =
     (case body s of
        (Inl e, s') \<Rightarrow> (Inl e, s')
      | (Inr u, s') \<Rightarrow> commit s')"

definition except_block :: "unit result \<Rightarrow> unit result" where
  "except_block rs =
     (case rs of
        (Inr u, s) \<Rightarrow> (Inr u, s)
      | (Inl e, s) \<Rightarrow>
          if is_Exception e then
            (case rollback s of
               (Inl e', s') \<Rightarrow> (Inl e', s')
             | (Inr u, s') \<Rightarrow> (Inl e, s'))
          else (Inl e, s))"

definition finally_block :: "unit result \<Rightarrow> unit result" where
  "finally_block rs =
     (case rs of
        (r, s) \<Rightarrow>
          (case close s of
             (Inl e', s') \<Rightarrow> (Inl e', s')
           | (Inr u, s') \<Rightarrow> (r, s')))"

definition session_scope :: "(state \<Rightarrow> unit result) \<Rightarrow> state \<Rightarrow> unit result" where
  "session_scope body s0 =
     finally_block (except_block (try_block body (s0\<lparr>log := log s0 @ [EvOpen]\<rparr>)))"

text \<open>
  \<open>quiet n s\<close>: the environment raises nothing in the next \<open>n\<close> calls of the database
  layer.
\<close>

definition quiet :: "nat \<Rightarrow> state \<Rightarrow> bool" where
  "quiet n s = (\<forall>f \<in> set (take n (faults s)). f = None)"

text \<open>
  \<open>db_step s s'\<close>: from \<open>s\<close> to \<open>s'\<close> the durable rows are kept and no commit is in the
  calls added to the trace.
\<close>

definition db_step :: "state \<Rightarrow> state \<Rightarrow> bool" where
  "db_step s s' = (committed s' = committed s \<and>
     (\<exists>evs. log s' = log s @ evs \<and> EvCommit \<notin> set evs))"

text \<open>\<open>no_chunk s s'\<close>: the calls added to the trace from \<open>s\<close> to \<open>s'\<close> hold no insert of rows.\<close>

definition no_chunk :: "state \<Rightarrow> state \<Rightarrow> bool" where
  "no_chunk s s' = (\<exists>evs. log s' = log s @ evs \<and> (\<forall>n. EvInsertChunk n \<notin> set evs))"

section \<open>Creating and loading the scratch table\<close>

text \<open>
  \<open>temp_table.__table__.create(bind=session.connection(), checkfirst=False)\<close>: with
  \<open>checkfirst=False\<close> an existing table of that name is an error of the database.
\<close>

definition create_table :: "table_class \<Rightarrow> state \<Rightarrow> unit result" where
  "create_table temp_table s =
     (case engine_call (EvCreate (tablename temp_table)) s of
        (Some e, s') \<Rightarrow> (Inl e, s')
      | (None, s') \<Rightarrow>
          (case scratch s' of
             Some rs \<Rightarrow> (Inl (SQLAlchemyError ''table already exists''), s')
           | None \<Rightarrow> (Inr (), s'\<lparr>scratch := Some []\<rparr>)))"

text \<open>A pandas DataFrame: the column labels and the rows, one value per label.\<close>

record dataframe =
  df_columns :: "string list"
  df_rows :: "val list list"

definition row_get :: "row \<Rightarrow> string \<Rightarrow> val" where
  "row_get r c = (case map_of r c of Some v \<Rightarrow> v | None \<Rightarrow> Null)"

text \<open>
  The row that the scratch table stores for one row of the frame, \<open>n\<close> being the
  number that the table's auto-increment counter gives the row: the columns of the
  scratch schema in their order; a value that the frame supplies is stored as it is;
  a column that the frame does not have takes the number when it is the single
  primary-key column (the auto-increment key that the module requires), and its
  default otherwise.
\<close>

definition scratch_row :: "table_class \<Rightarrow> string list \<Rightarrow> int \<Rightarrow> val list \<Rightarrow> row" where
  "scratch_row temp_table labels n vs =
     map (\<lambda>c. (c_name c, case map_of (zip labels vs) (c_name c) of
                            Some v \<Rightarrow> v
                          | None \<Rightarrow> if primary_key temp_table = [c] then IntV n
                                    else c_default c))
         (columns temp_table)"

text \<open>The rows of a chunk, numbered from \<open>n\<close> on.\<close>

definition number_rows :: "table_class \<Rightarrow> string list \<Rightarrow> nat \<Rightarrow> val list list \<Rightarrow> row list" where
  "number_rows temp_table labels n rows =
     map (\<lambda>(i, vs). scratch_row temp_table labels (int i) vs) (enumerate n rows)"

text \<open>
  A primary key of several columns has no auto-increment: a key column that the frame
  does not supply and that has no default is left without value, which the database
  refuses.
\<close>

definition key_without_value :: "table_class \<Rightarrow> string list \<Rightarrow> bool" where
  "key_without_value temp_table labels =
     (1 < length (primary_key temp_table) \<and>
      (\<exists>k \<in> set (primary_key temp_table). c_name k \<notin> set labels \<and> c_default k = Null))"

text \<open>
  One multi-row INSERT of \<open>DataFrame.to_sql\<close> into the scratch table, a fresh table that
  only this load fills, so that the counter is at the number of rows stored. The
  source's comment on the call states the behaviour: a column added to the frame is an
  error, a column missing from the frame is left out of the insert.
\<close>

definition insert_chunk :: "table_class \<Rightarrow> string list \<Rightarrow> val list list \<Rightarrow> state \<Rightarrow> unit result" where
  "insert_chunk temp_table labels chunk s =
     (case engine_call (EvInsertChunk (length chunk)) s of
        (Some e, s') \<Rightarrow> (Inl e, s')
      | (None, s') \<Rightarrow>
          (case scratch s' of
             None \<Rightarrow> (Inl (SQLAlchemyError ''no such table''), s')
           | Some rs \<Rightarrow>
               if \<exists>l \<in> set labels. l \<notin> set (map c_name (columns temp_table))
               then (Inl (SQLAlchemyError ''unknown column''), s')
               else if key_without_value temp_table labels
               then (Inl (SQLAlchemyError ''field has no default value''), s')
               else (Inr (), s'\<lparr>scratch := Some (rs @ number_rows temp_table labels
                                                          (Suc (length rs)) chunk)\<rparr>)))"

text \<open>The rows cut into chunks of \<open>n\<close>; no chunk for no rows.\<close>

function chunked :: "nat \<Rightarrow> 'a list \<Rightarrow> 'a list list" where
  "chunked n xs = (if n = 0 \<or> xs = [] then [] else take n xs # chunked n (drop n xs))"
  by pat_completeness auto
termination
  by (relation "measure (\<lambda>(n, xs). length xs)") auto

declare chunked.simps [simp del]

fun insert_chunks :: "table_class \<Rightarrow> string list \<Rightarrow> val list list list \<Rightarrow> state \<Rightarrow> unit result" where
  "insert_chunks temp_table labels [] s = (Inr (), s)"
| "insert_chunks temp_table labels (ch # chs) s =
     (case insert_chunk temp_table labels ch s of
        (Inl e, s') \<Rightarrow> (Inl e, s')
      | (Inr u, s') \<Rightarrow> insert_chunks temp_table labels chs s')"

text \<open>
  \<open>df.to_sql(temp_table.__tablename__, con=session.connection(), if_exists='append',
  index=False, chunksize=1000)\<close>: the rows go to the existing table, \<open>chunksize\<close> rows per
  insert.
\<close>

definition to_sql :: "dataframe \<Rightarrow> table_class \<Rightarrow> nat \<Rightarrow> state \<Rightarrow> unit result" where
  "to_sql df temp_table chunksize s =
     insert_chunks temp_table (df_columns df) (chunked chunksize (df_rows df)) s"

section \<open>Executing the merge statement\<close>

text \<open>
  The database's side of \<open>session.execute(stmt)\<close> for an insert-from-select: MySQL's
  INSERT ... SELECT with the IGNORE prefix or the ON DUPLICATE KEY UPDATE clause.
\<close>

text \<open>The keys that make two rows duplicates: the primary key and the unique index.\<close>

definition unique_keys :: "table_class \<Rightarrow> string list list" where
  "unique_keys t =
     (if primary_key t = [] then [] else [map c_name (primary_key t)]) @
     (if unique_index t = [] then [] else [unique_index t])"

text \<open>NULL in a key column never makes a duplicate.\<close>

definition same_key :: "string list \<Rightarrow> row \<Rightarrow> row \<Rightarrow> bool" where
  "same_key k old new = (\<forall>c \<in> set k. row_get new c \<noteq> Null \<and> row_get old c = row_get new c)"

definition conflicts :: "table_class \<Rightarrow> row \<Rightarrow> row \<Rightarrow> bool" where
  "conflicts t old new = (\<exists>k \<in> set (unique_keys t). same_key k old new)"

definition max_id :: "table_class \<Rightarrow> row list \<Rightarrow> int" where
  "max_id t rows =
     fold (\<lambda>r m. fold (\<lambda>c m. case row_get r (c_name c) of IntV i \<Rightarrow> max i m | _ \<Rightarrow> m)
                       (primary_key t) m) rows 0"

text \<open>
  The row that the statement offers to the target for one selected row: the named
  columns take the selected values by position, a primary-key column that is not named
  takes the next number (one more than the largest key in the table: the counter of
  the engine may run ahead, which no property below depends on), any other column its
  default.
\<close>

definition candidate :: "insert_stmt \<Rightarrow> row list \<Rightarrow> row \<Rightarrow> row" where
  "candidate stmt rows r =
     (let t = into stmt;
          given = zip (names stmt) (map (\<lambda>c. row_get r (c_name c)) (select stmt))
      in map (\<lambda>tc. (c_name tc,
                     case map_of given (c_key tc) of
                       Some v \<Rightarrow> v
                     | None \<Rightarrow> if tc \<in> set (primary_key t) then IntV (max_id t rows + 1)
                               else c_default tc))
             (columns t))"

text \<open>\<open>col = VALUES(src)\<close> for every entry of the dictionary, on an existing row.\<close>

definition apply_update :: "table_class \<Rightarrow> (string \<times> string) list \<Rightarrow> row \<Rightarrow> row \<Rightarrow> row" where
  "apply_update t d old new =
     map (\<lambda>tc. (c_name tc,
                case map_of d (c_key tc) of
                  None \<Rightarrow> row_get old (c_name tc)
                | Some src \<Rightarrow>
                    (case resolve t src of
                       None \<Rightarrow> row_get old (c_name tc)
                     | Some n \<Rightarrow> row_get new n)))
         (columns t)"

fun update_first :: "('a \<Rightarrow> bool) \<Rightarrow> ('a \<Rightarrow> 'a) \<Rightarrow> 'a list \<Rightarrow> 'a list" where
  "update_first P f [] = []"
| "update_first P f (x # xs) = (if P x then f x # xs else x # update_first P f xs)"

definition merge_row :: "insert_stmt \<Rightarrow> row list \<Rightarrow> row \<Rightarrow> exc + row list" where
  "merge_row stmt rows r =
     (let t = into stmt; new = candidate stmt rows r
      in if \<not> (\<exists>old \<in> set rows. conflicts t old new) then Inr (rows @ [new])
         else case on_duplicate stmt of
                Some d \<Rightarrow>
                  Inr (update_first (\<lambda>old. conflicts t old new)
                                    (\<lambda>old. apply_update t d old new) rows)
              | None \<Rightarrow>
                  if ''IGNORE'' \<in> set (prefixes stmt) then Inr rows
                  else Inl (SQLAlchemyError ''duplicate entry''))"

fun merge_rows :: "insert_stmt \<Rightarrow> row list \<Rightarrow> row list \<Rightarrow> exc + row list" where
  "merge_rows stmt rows [] = Inr rows"
| "merge_rows stmt rows (r # rs) =
     (case merge_row stmt rows r of
        Inl e \<Rightarrow> Inl e
      | Inr rows' \<Rightarrow> merge_rows stmt rows' rs)"

definition execute :: "insert_stmt \<Rightarrow> state \<Rightarrow> unit result" where
  "execute stmt s =
     (case engine_call (EvExecute stmt) s of
        (Some e, s') \<Rightarrow> (Inl e, s')
      | (None, s') \<Rightarrow>
          (case scratch s' of
             None \<Rightarrow> (Inl (SQLAlchemyError ''no such table''), s')
           | Some srows \<Rightarrow>
               if select stmt = [] then (Inl (SQLAlchemyError ''no columns to select''), s')
               else if length (names stmt) \<noteq> length (select stmt)
               then (Inl (SQLAlchemyError ''column count does not match''), s')
               else if \<exists>k \<in> set (names stmt). resolve (into stmt) k = None
               then (Inl (SQLAlchemyError ''unknown column''), s')
               else (case merge_rows stmt (working s') srows of
                       Inl e \<Rightarrow> (Inl e, s')
                     | Inr rows \<Rightarrow> (Inr (), s'\<lparr>working := rows\<rparr>))))"

section \<open>The operation\<close>

text \<open>\<open>Operation._my_insert\<close>: the statement of lines 80 to 107, then \<open>session.execute\<close>.\<close>

definition my_insert :: "table_class \<Rightarrow> table_class \<Rightarrow> string \<Rightarrow> state \<Rightarrow> unit result" where
  "my_insert target_table temp_table if_record_exists s =
     (case my_insert_stmt target_table temp_table if_record_exists of
        Inl e \<Rightarrow> (Inl e, s)
      | Inr stmt \<Rightarrow> execute stmt s)"

text \<open>
  \<open>Operation.to_mysql\<close>: the policy check, then inside the session scope the creation of
  the scratch table, the load (its \<open>except\<close> raises the error again) and, in the
  \<open>else\<close> branch, the merge.
\<close>

definition to_mysql_body :: "dataframe \<Rightarrow> table_class \<Rightarrow> table_class \<Rightarrow> string \<Rightarrow> state \<Rightarrow> unit result" where
  "to_mysql_body df target_table temp_table if_record_exists s =
     (case create_table temp_table s of
        (Inl e, s1) \<Rightarrow> (Inl e, s1)
      | (Inr u, s1) \<Rightarrow>
          (case to_sql df temp_table 1000 s1 of
             (Inl e, s2) \<Rightarrow> (Inl e, s2)
           | (Inr u, s2) \<Rightarrow> my_insert target_table temp_table if_record_exists s2))"

definition to_mysql :: "dataframe \<Rightarrow> table_class \<Rightarrow> table_class \<Rightarrow> string \<Rightarrow> state \<Rightarrow> unit result" where
  "to_mysql df target_table temp_table if_record_exists s =
     (if if_record_exists \<noteq> ''update'' \<and> if_record_exists \<noteq> ''ignore''
      then (Inl (ValueError ''if_record_exists must be update or ignore''), s)
      else session_scope (to_mysql_body df target_table temp_table if_record_exists) s)"

section \<open>Notions for the merge\<close>

text \<open>
  The value of a row at the unique index of a table, and when an existing row is a
  duplicate of an offered row by that index: NULL at the index never is.
\<close>

definition ukey :: "table_class \<Rightarrow> row \<Rightarrow> val list" where
  "ukey t r = map (row_get r) (unique_index t)"

definition matches :: "table_class \<Rightarrow> row \<Rightarrow> row \<Rightarrow> bool" where
  "matches t old r = (unique_index t \<noteq> [] \<and> Null \<notin> set (ukey t r) \<and> ukey t old = ukey t r)"

text \<open>
  Scratch and target classes declared alike, as the module's notes require: the same
  columns, one primary-key column \<open>pk\<close> (key equal to name), distinct keys and names,
  at least one other column, and the unique index on columns other than \<open>pk\<close>.
\<close>

definition aligned :: "table_class \<Rightarrow> table_class \<Rightarrow> column \<Rightarrow> bool" where
  "aligned t temp pk =
     (columns temp = columns t \<and> primary_key temp = [pk] \<and> primary_key t = [pk]
      \<and> pk \<in> set (columns t) \<and> c_name pk = c_key pk
      \<and> distinct (map c_key (columns t)) \<and> distinct (map c_name (columns t))
      \<and> filter (\<lambda>c. c \<noteq> pk) (columns t) \<noteq> []
      \<and> set (unique_index t) \<subseteq> set (map c_name (filter (\<lambda>c. c \<noteq> pk) (columns t))))"

text \<open>The statement that \<open>_my_insert\<close> builds for such classes (lemma \<open>aligned_stmt\<close>).\<close>

definition merge_stmt :: "table_class \<Rightarrow> column \<Rightarrow> string \<Rightarrow> insert_stmt" where
  "merge_stmt t pk p =
     \<lparr>into = t, names = map c_key (filter (\<lambda>c. c \<noteq> pk) (columns t)),
      select = filter (\<lambda>c. c \<noteq> pk) (columns t),
      on_duplicate = (if p = ''update''
                      then Some (update_dict (map c_key (filter (\<lambda>c. c \<noteq> pk) (columns t))))
                      else None),
      prefixes = (if p = ''update'' then [] else [''IGNORE''])\<rparr>"

text \<open>A row of the target carries the values of a row of the batch in every column but \<open>pk\<close>.\<close>

definition agrees :: "table_class \<Rightarrow> column \<Rightarrow> row \<Rightarrow> row \<Rightarrow> bool" where
  "agrees t pk row r =
     (\<forall>tc \<in> set (columns t). tc \<noteq> pk \<longrightarrow> row_get row (c_name tc) = row_get r (c_name tc))"


text \<open>
  The rows that the load stores for a frame, and those of them whose value at the
  unique index no row of the target has.
\<close>

definition absent_rows :: "table_class \<Rightarrow> row list \<Rightarrow> row list \<Rightarrow> row list" where
  "absent_rows t rows batch = filter (\<lambda>r. ukey t r \<notin> ukey t ` set rows) batch"

definition batch_rows :: "table_class \<Rightarrow> dataframe \<Rightarrow> row list" where
  "batch_rows temp df = number_rows temp (df_columns df) 1 (df_rows df)"

section \<open>Example data\<close>

text \<open>
  The scenario of the specification: a target \<open>users(id PK, email UNIQUE, name)\<close> holding
  one row, a scratch table of the same columns, and a frame of two rows.
\<close>

definition ex_col :: "string \<Rightarrow> column" where
  "ex_col n = \<lparr>c_name = n, c_key = n, c_default = Null\<rparr>"

definition users :: table_class where
  "users = \<lparr>tablename = ''users'',
            columns = [ex_col ''id'', ex_col ''email'', ex_col ''name''],
            primary_key = [ex_col ''id''], unique_index = [''email'']\<rparr>"

definition tmp_users :: table_class where
  "tmp_users = \<lparr>tablename = ''tmp_users'',
                columns = [ex_col ''id'', ex_col ''email'', ex_col ''name''],
                primary_key = [ex_col ''id''], unique_index = []\<rparr>"

definition alice :: row where
  "alice = [(''id'', IntV 1), (''email'', StrV ''a@x.com''), (''name'', StrV ''Alice'')]"

definition s_users :: state where
  "s_users = \<lparr>committed = [alice], working = [alice], scratch = None, log = [], faults = []\<rparr>"

definition ex_df :: dataframe where
  "ex_df = \<lparr>df_columns = [''email'', ''name''],
            df_rows = [[StrV ''a@x.com'', StrV ''Alicia''], [StrV ''b@x.com'', StrV ''Bob'']]\<rparr>"

text \<open>Two bodies for the session scope: one interrupted, one failing with an error.\<close>

definition interrupted_body :: "state \<Rightarrow> unit result" where
  "interrupted_body s = (Inl KeyboardInterrupt, s)"

definition failing_body :: "state \<Rightarrow> unit result" where
  "failing_body s = (Inl (ValueError ''boom''), s)"

text \<open>A frame with a column that the scratch table does not have.\<close>

definition bad_df :: dataframe where
  "bad_df = \<lparr>df_columns = [''email'', ''nom''],
             df_rows = [[StrV ''a@x.com'', StrV ''Alicia''], [StrV ''b@x.com'', StrV ''Bob'']]\<rparr>"

text \<open>
  Scratch schemas with two primary-key columns, with no column but the key, and with
  a primary-key column whose key differs from its name
  (\<open>Column('id', ..., key='pk_id')\<close>); a frame that supplies the two key columns.
\<close>

definition tmp_two_pk :: table_class where
  "tmp_two_pk = \<lparr>tablename = ''tmp_users'',
      columns = [ex_col ''id'', ex_col ''region'', ex_col ''email'', ex_col ''name''],
      primary_key = [ex_col ''id'', ex_col ''region''], unique_index = []\<rparr>"

definition tmp_only_keys :: table_class where
  "tmp_only_keys = \<lparr>tablename = ''tmp_users'',
      columns = [ex_col ''id''], primary_key = [ex_col ''id''], unique_index = []\<rparr>"

definition df_keys :: dataframe where
  "df_keys = \<lparr>df_columns = [''id'', ''region'', ''email'', ''name''],
              df_rows = [[IntV 7, StrV ''eu'', StrV ''b@x.com'', StrV ''Bob'']]\<rparr>"

definition tmp_keyed :: table_class where
  "tmp_keyed = \<lparr>tablename = ''tmp_users'',
      columns = [\<lparr>c_name = ''id'', c_key = ''pk_id'', c_default = Null\<rparr>, ex_col ''email'', ex_col ''name''],
      primary_key = [\<lparr>c_name = ''id'', c_key = ''pk_id'', c_default = Null\<rparr>], unique_index = []\<rparr>"

text \<open>A frame of 2500 rows.\<close>

definition big_df :: dataframe where
  "big_df = \<lparr>df_columns = [''email'', ''name''],
             df_rows = replicate 2500 [StrV ''a@x.com'', StrV ''Alicia'']\<rparr>"

text \<open>
  A frame with the same new address twice, a target without unique index, a frame
  without the indexed column, and the two rows that the load stores for \<open>ex_df\<close>.
\<close>

definition dup_df :: dataframe where
  "dup_df = \<lparr>df_columns = [''email'', ''name''],
             df_rows = [[StrV ''b@x.com'', StrV ''Bob''], [StrV ''b@x.com'', StrV ''Bobby'']]\<rparr>"

definition users_noidx :: table_class where
  "users_noidx = users\<lparr>unique_index := []\<rparr>"

definition name_df :: dataframe where
  "name_df = \<lparr>df_columns = [''name''], df_rows = [[StrV ''Bob'']]\<rparr>"



text \<open>
  A scratch schema with a default on a column other than the key, a frame that has
  only one of its columns, the state in which its table has just been created, and a
  frame without rows that has a column unknown to the scratch schema.
\<close>

definition tmp_members :: table_class where
  "tmp_members = \<lparr>tablename = ''tmp_members'',
      columns = [ex_col ''id'', ex_col ''email'',
                 \<lparr>c_name = ''name'', c_key = ''name'', c_default = StrV ''unknown''\<rparr>],
      primary_key = [ex_col ''id''], unique_index = []\<rparr>"

definition sub_df :: dataframe where
  "sub_df = \<lparr>df_columns = [''email''], df_rows = [[StrV ''b@x.com''], [StrV ''c@x.com'']]\<rparr>"

definition s_created :: state where
  "s_created = s_users\<lparr>scratch := Some []\<rparr>"

definition empty_bad_df :: dataframe where
  "empty_bad_df = \<lparr>df_columns = [''email'', ''nom''], df_rows = []\<rparr>"

text \<open>
  The environment interrupts the second call of a run (the first insert of the load);
  the environment fails the second call and then the third (the rollback).
\<close>

definition s_interrupted :: state where
  "s_interrupted = s_users\<lparr>faults := [None, Some KeyboardInterrupt]\<rparr>"

definition s_lost :: state where
  "s_lost = s_users\<lparr>faults := [None, Some (SQLAlchemyError ''lost''),
                                 Some (SQLAlchemyError ''gone'')]\<rparr>"


section \<open>Properties\<close>

subsection \<open>Helper facts on the removal loop\<close>

lemma py_remove_error: "py_remove x xs = Inl e \<Longrightarrow> \<exists>m. e = ValueError m"
  by (auto simp: py_remove_def split: if_splits)

lemma remove_each_error: "remove_each ks xs = Inl e \<Longrightarrow> \<exists>m. e = ValueError m"
proof (induction ks arbitrary: xs)
  case Nil
  then show ?case by simp
next
  case (Cons k ks)
  then show ?case
    by (auto split: sum.splits dest: py_remove_error)
qed

subsection \<open>The conflict policy\<close>

text \<open>
  C7. A policy value other than the two accepted ones (\<open>'update'\<close>, the overwrite policy,
  and \<open>'ignore'\<close>) makes the building of the merge statement fail with ValueError, the
  source's policy error: in \<open>_my_insert\<close>, which then executes nothing, and in the check
  at the head of \<open>to_mysql\<close>.
\<close>

theorem invalid_policy_raises_ValueError:
  assumes "p \<noteq> ''update''" and "p \<noteq> ''ignore''"
  shows "(\<exists>m. my_insert_stmt target_table temp_table p = Inl (ValueError m))
       \<and> (\<exists>m. my_insert target_table temp_table p s = (Inl (ValueError m), s))
       \<and> fst (to_mysql df target_table temp_table p s)
           = Inl (ValueError ''if_record_exists must be update or ignore'')"
proof -
  have a: "\<exists>m. my_insert_stmt target_table temp_table p = Inl (ValueError m)"
    using assms
    by (auto simp: my_insert_stmt_def Let_def split: sum.splits dest: remove_each_error)
  then have b: "\<exists>m. my_insert target_table temp_table p s = (Inl (ValueError m), s)"
    by (auto simp: my_insert_def)
  have c: "fst (to_mysql df target_table temp_table p s)
           = Inl (ValueError ''if_record_exists must be update or ignore'')"
    using assms by (simp add: to_mysql_def)
  from a b c show ?thesis by blast
qed

theorem invalid_policy_raises_ValueError_witness:
  "''overwrite'' \<noteq> ''update'' \<and> ''overwrite'' \<noteq> ''ignore''
   \<and> (\<exists>m. my_insert_stmt users tmp_users ''overwrite'' = Inl (ValueError m))
   \<and> (\<exists>m. my_insert users tmp_users ''overwrite'' s_users = (Inl (ValueError m), s_users))
   \<and> fst (to_mysql ex_df users tmp_users ''overwrite'' s_users)
       = Inl (ValueError ''if_record_exists must be update or ignore'')"
  using invalid_policy_raises_ValueError [of "''overwrite''" users tmp_users s_users ex_df]
  by simp

text \<open>
  C10. With a policy value other than the two accepted ones, \<open>to_mysql\<close> raises before
  the session scope is entered: the state is returned as it was, so the trace holds no
  opening of a session, no creation of a scratch table and no write.
\<close>

theorem invalid_policy_no_side_effect:
  assumes "p \<noteq> ''update''" and "p \<noteq> ''ignore''"
  shows "to_mysql df target_table temp_table p s
         = (Inl (ValueError ''if_record_exists must be update or ignore''), s)"
  using assms by (simp add: to_mysql_def)

theorem invalid_policy_no_side_effect_witness:
  "''replace'' \<noteq> ''update'' \<and> ''replace'' \<noteq> ''ignore''
   \<and> to_mysql ex_df users tmp_users ''replace'' s_users
       = (Inl (ValueError ''if_record_exists must be update or ignore''), s_users)"
  using invalid_policy_no_side_effect [of "''replace''" ex_df users tmp_users s_users]
  by simp

subsection \<open>The session scope\<close>

lemma engine_call_quiet:
  "quiet (Suc n) s \<Longrightarrow> engine_call ev s = (None, s\<lparr>log := log s @ [ev], faults := tl (faults s)\<rparr>)"
  by (cases "faults s") (auto simp: engine_call_def quiet_def)

lemma quiet_tl: "quiet (Suc n) s \<Longrightarrow> faults s' = tl (faults s) \<Longrightarrow> quiet n s'"
  by (cases "faults s") (auto simp: quiet_def)

lemma engine_call_fault:
  "faults s = Some e # fs \<Longrightarrow> engine_call ev s = (Some e, s\<lparr>log := log s @ [ev], faults := fs\<rparr>)"
  by (simp add: engine_call_def)

lemma engine_call_log: "log (snd (engine_call ev s)) = log s @ [ev]"
  by (simp add: engine_call_def split: list.splits)

lemma close_log: "log (snd (close s)) = log s @ [EvClose]"
  by (simp add: close_def engine_call_def split: list.splits option.splits)

lemma close_quiet:
  "quiet (Suc n) s \<Longrightarrow> close s = (Inr (), s\<lparr>log := log s @ [EvClose], faults := tl (faults s),
       working := committed s, scratch := None\<rparr>)"
  by (simp add: close_def engine_call_quiet)

lemma rollback_quiet:
  "quiet (Suc n) s \<Longrightarrow> rollback s = (Inr (), s\<lparr>log := log s @ [EvRollback], faults := tl (faults s),
       working := committed s\<rparr>)"
  by (simp add: rollback_def engine_call_quiet)

lemma commit_quiet:
  "quiet (Suc n) s \<Longrightarrow> commit s = (Inr (), s\<lparr>log := log s @ [EvCommit], faults := tl (faults s),
       committed := working s\<rparr>)"
  by (simp add: commit_def engine_call_quiet)

lemma commit_fault:
  "faults s = Some e # fs \<Longrightarrow> commit s = (Inl e, s\<lparr>log := log s @ [EvCommit], faults := fs\<rparr>)"
  by (simp add: commit_def engine_call_fault)

lemma session_scope_closes: "\<exists>pre. log (snd (session_scope body s0)) = pre @ [EvClose]"
proof -
  have "log (snd (finally_block (r, s))) = log s @ [EvClose]" for r s
    using close_log [of s] by (cases "close s") (auto simp: finally_block_def split: sum.splits)
  then show ?thesis
    unfolding session_scope_def by (metis prod.collapse)
qed

lemma scope_ok:
  assumes "body (s0\<lparr>log := log s0 @ [EvOpen]\<rparr>) = (Inr u, s1)" "quiet 2 s1"
  shows "session_scope body s0 = (Inr u, s1\<lparr>log := log s1 @ [EvCommit, EvClose], faults := tl (tl (faults s1)),
       committed := working s1, scratch := None\<rparr>)"
proof -
  from assms(2) have q: "quiet (Suc (Suc 0)) s1" by (simp add: numeral_2_eq_2)
  have c: "commit s1 = (Inr (), s1\<lparr>log := log s1 @ [EvCommit], faults := tl (faults s1),
       committed := working s1\<rparr>)" using q by (rule commit_quiet)
  have q': "quiet (Suc 0) (s1\<lparr>log := log s1 @ [EvCommit], faults := tl (faults s1),
       committed := working s1\<rparr>)" using q by (rule quiet_tl) simp
  show ?thesis
    unfolding session_scope_def try_block_def except_block_def finally_block_def using assms(1) c close_quiet [OF q']
    by simp
qed


lemma scope_raise:
  assumes "body (s0\<lparr>log := log s0 @ [EvOpen]\<rparr>) = (Inl e, s1)" "is_Exception e" "quiet 2 s1"
  shows "session_scope body s0 = (Inl e, s1\<lparr>log := log s1 @ [EvRollback, EvClose], faults := tl (tl (faults s1)),
       working := committed s1, scratch := None\<rparr>)"
proof -
  from assms(3) have q: "quiet (Suc (Suc 0)) s1" by (simp add: numeral_2_eq_2)
  have c: "rollback s1 = (Inr (), s1\<lparr>log := log s1 @ [EvRollback], faults := tl (faults s1),
       working := committed s1\<rparr>)" using q by (rule rollback_quiet)
  have q': "quiet (Suc 0) (s1\<lparr>log := log s1 @ [EvRollback], faults := tl (faults s1),
       working := committed s1\<rparr>)" using q by (rule quiet_tl) simp
  show ?thesis
    unfolding session_scope_def try_block_def except_block_def finally_block_def using assms(1,2) c close_quiet [OF q']
    by simp
qed

lemma scope_commit_fails:
  assumes "body (s0\<lparr>log := log s0 @ [EvOpen]\<rparr>) = (Inr u, s1)" "faults s1 = Some e # fs"
    "is_Exception e" "\<forall>f \<in> set (take 2 fs). f = None"
  shows "session_scope body s0 = (Inl e, s1\<lparr>log := log s1 @ [EvCommit, EvRollback, EvClose],
       faults := tl (tl fs), working := committed s1, scratch := None\<rparr>)"
proof -
  let ?s2 = "s1\<lparr>log := log s1 @ [EvCommit], faults := fs\<rparr>"
  have c: "commit s1 = (Inl e, ?s2)" using assms(2) by (rule commit_fault)
  have q: "quiet (Suc (Suc 0)) ?s2" using assms(4) by (simp add: quiet_def numeral_2_eq_2)
  have r: "rollback ?s2 = (Inr (), ?s2\<lparr>log := log ?s2 @ [EvRollback], faults := tl (faults ?s2),
       working := committed ?s2\<rparr>)" using q by (rule rollback_quiet)
  have q': "quiet (Suc 0) (?s2\<lparr>log := log ?s2 @ [EvRollback], faults := tl (faults ?s2),
       working := committed ?s2\<rparr>)" using q by (rule quiet_tl) simp
  show ?thesis
    unfolding session_scope_def try_block_def except_block_def finally_block_def using assms(1,3) c r close_quiet [OF q']
    by simp
qed

lemma scope_interrupt:
  assumes "body (s0\<lparr>log := log s0 @ [EvOpen]\<rparr>) = (Inl e, s1)" "\<not> is_Exception e" "quiet 1 s1"
  shows "session_scope body s0 = (Inl e, s1\<lparr>log := log s1 @ [EvClose], faults := tl (faults s1),
       working := committed s1, scratch := None\<rparr>)"
proof -
  from assms(3) have q: "quiet (Suc 0) s1" by simp
  show ?thesis
    unfolding session_scope_def try_block_def except_block_def finally_block_def using assms(1,2) close_quiet [OF q]
    by simp
qed

subsection \<open>Steps that commit nothing\<close>

lemma db_step_refl: "db_step s s"
  by (simp add: db_step_def)

lemma db_step_trans: "db_step s s' \<Longrightarrow> db_step s' s'' \<Longrightarrow> db_step s s''"
  by (auto simp: db_step_def)

lemma engine_call_step: "engine_call ev s = (f, s') \<Longrightarrow> ev \<noteq> EvCommit \<Longrightarrow> db_step s s'"
  by (auto simp: engine_call_def db_step_def split: list.splits)

lemma engine_call_fields:
  "engine_call ev s = (f, s') \<Longrightarrow>
     committed s' = committed s \<and> working s' = working s \<and> scratch s' = scratch s \<and> log s' = log s @ [ev]"
  by (auto simp: engine_call_def split: list.splits)

lemma create_table_step: "create_table t s = (r, s') \<Longrightarrow> db_step s s'"
  by (auto simp: create_table_def db_step_def split: prod.splits option.splits dest!: engine_call_fields)

lemma insert_chunk_step: "insert_chunk t ls ch s = (r, s') \<Longrightarrow> db_step s s'"
  by (auto simp: insert_chunk_def db_step_def split: prod.splits option.splits if_splits dest!: engine_call_fields)

lemma insert_chunks_step: "insert_chunks t ls chs s = (r, s') \<Longrightarrow> db_step s s'"
proof (induction chs arbitrary: s)
  case Nil
  then show ?case by (simp add: db_step_refl)
next
  case (Cons ch chs)
  show ?case
  proof (cases "insert_chunk t ls ch s")
    case (Pair r1 s1)
    then have st: "db_step s s1" by (rule insert_chunk_step)
    show ?thesis
    proof (cases r1)
      case (Inl e)
      with Pair Cons.prems st show ?thesis by simp
    next
      case (Inr u)
      with Pair Cons.prems have "insert_chunks t ls chs s1 = (r, s')" by simp
      then have "db_step s1 s'" by (rule Cons.IH)
      with st show ?thesis by (rule db_step_trans)
    qed
  qed
qed

lemma to_sql_step: "to_sql df t n s = (r, s') \<Longrightarrow> db_step s s'"
  unfolding to_sql_def by (rule insert_chunks_step)

lemma execute_step: "execute stmt s = (r, s') \<Longrightarrow> db_step s s'"
  by (auto simp: execute_def db_step_def split: prod.splits option.splits if_splits sum.splits dest!: engine_call_fields)

lemma my_insert_step: "my_insert tt t p s = (r, s') \<Longrightarrow> db_step s s'"
  by (auto simp: my_insert_def db_step_refl split: sum.splits dest: execute_step)

lemma to_mysql_body_step:
  assumes "to_mysql_body df tt t p s = (r, s')"
  shows "db_step s s'"
proof (cases "create_table t s")
  case c: (Pair r1 s1)
  then have st1: "db_step s s1" by (rule create_table_step)
  show ?thesis
  proof (cases r1)
    case (Inl e)
    with c assms st1 show ?thesis by (simp add: to_mysql_body_def)
  next
    case r1: (Inr u)
    show ?thesis
    proof (cases "to_sql df t 1000 s1")
      case l: (Pair r2 s2)
      then have st2: "db_step s1 s2" by (rule to_sql_step)
      show ?thesis
      proof (cases r2)
        case (Inl e)
        with c r1 l assms have "s' = s2" by (simp add: to_mysql_body_def)
        with st1 st2 show ?thesis by (auto intro: db_step_trans)
      next
        case (Inr u2)
        with c r1 l assms have "my_insert tt t p s2 = (r, s')" by (simp add: to_mysql_body_def)
        then have "db_step s2 s'" by (rule my_insert_step)
        with st1 st2 show ?thesis by (auto intro: db_step_trans)
      qed
    qed
  qed
qed

lemma rollback_step: "rollback s = (r, s') \<Longrightarrow> db_step s s'"
  by (auto simp: rollback_def db_step_def split: prod.splits option.splits dest!: engine_call_fields)

lemma close_step: "close s = (r, s') \<Longrightarrow> db_step s s'"
  by (auto simp: close_def db_step_def split: prod.splits option.splits dest!: engine_call_fields)

lemma except_block_error:
  "except_block (Inl e, s) = (r, s') \<Longrightarrow> isl r \<and> db_step s s'"
  by (auto simp: except_block_def db_step_refl split: if_splits prod.splits sum.splits dest: rollback_step)

lemma finally_block_error:
  "finally_block (r0, s) = (r, s') \<Longrightarrow> isl r0 \<Longrightarrow> isl r \<and> db_step s s'"
  by (auto simp: finally_block_def split: prod.splits sum.splits dest: close_step)

lemma scope_error_atomic:
  assumes "body (s0\<lparr>log := log s0 @ [EvOpen]\<rparr>) = (Inl e, s1)"
    and "db_step (s0\<lparr>log := log s0 @ [EvOpen]\<rparr>) s1"
  shows "isl (fst (session_scope body s0)) \<and> db_step s0 (snd (session_scope body s0))"
proof -
  have o: "db_step s0 (s0\<lparr>log := log s0 @ [EvOpen]\<rparr>)" by (simp add: db_step_def)
  obtain r2 s2 where e: "except_block (Inl e, s1) = (r2, s2)" by (cases "except_block (Inl e, s1)")
  obtain r3 s3 where f: "finally_block (r2, s2) = (r3, s3)" by (cases "finally_block (r2, s2)")
  from e have e': "isl r2" "db_step s1 s2" using except_block_error by blast+
  from f e'(1) have f': "isl r3" "db_step s2 s3" using finally_block_error by blast+
  have "session_scope body s0 = (r3, s3)"
    using assms(1) e f by (simp add: session_scope_def try_block_def)
  moreover have "db_step s0 s3"
    using o assms(2) e'(2) f'(2) by (blast intro: db_step_trans)
  ultimately show ?thesis using f'(1) by simp
qed


text \<open>
  C4, as stated, at a body that is interrupted: the exception raised inside the scope
  reaches the caller, the session is closed, and no rollback is called, because the
  handler is \<open>except Exception\<close> and KeyboardInterrupt is not an \<open>Exception\<close>.
\<close>

theorem session_scope_interrupt_counterexample:
  "fst (session_scope interrupted_body s_users) = Inl KeyboardInterrupt
   \<and> log (snd (session_scope interrupted_body s_users)) = [EvOpen, EvClose]
   \<and> EvRollback \<notin> set (log (snd (session_scope interrupted_body s_users)))"
  by (simp add: session_scope_def try_block_def except_block_def finally_block_def
      interrupted_body_def close_def engine_call_def s_users_def)

text \<open>
  C4, amended. For every body run inside the session scope: on normal exit the session
  commits (then closes); when the body or the commit raises an exception that is an
  instance of \<open>Exception\<close>, the session rolls back and, the rollback done, the same
  error reaches the caller; an exception that is not an instance of \<open>Exception\<close>
  reaches the caller without a rollback call; and on every path the last call is the
  close of the session. (\<open>quiet\<close>: the rollback and the close raise nothing themselves.)
\<close>

theorem session_scope_contract:
  assumes "body (s0\<lparr>log := log s0 @ [EvOpen]\<rparr>) = (r, s1)"
  shows "(\<forall>u. r = Inr u \<and> quiet 2 s1 \<longrightarrow>
            fst (session_scope body s0) = Inr u
          \<and> log (snd (session_scope body s0)) = log s1 @ [EvCommit, EvClose]
          \<and> committed (snd (session_scope body s0)) = working s1)
       \<and> (\<forall>e. r = Inl e \<and> is_Exception e \<and> quiet 2 s1 \<longrightarrow>
            fst (session_scope body s0) = Inl e
          \<and> log (snd (session_scope body s0)) = log s1 @ [EvRollback, EvClose]
          \<and> committed (snd (session_scope body s0)) = committed s1
          \<and> working (snd (session_scope body s0)) = committed s1)
       \<and> (\<forall>u e fs. r = Inr u \<and> faults s1 = Some e # fs \<and> is_Exception e
                   \<and> (\<forall>f \<in> set (take 2 fs). f = None) \<longrightarrow>
            fst (session_scope body s0) = Inl e
          \<and> log (snd (session_scope body s0)) = log s1 @ [EvCommit, EvRollback, EvClose]
          \<and> committed (snd (session_scope body s0)) = committed s1)
       \<and> (\<forall>e. r = Inl e \<and> \<not> is_Exception e \<and> quiet 1 s1 \<longrightarrow>
            fst (session_scope body s0) = Inl e
          \<and> log (snd (session_scope body s0)) = log s1 @ [EvClose]
          \<and> committed (snd (session_scope body s0)) = committed s1)
       \<and> (\<exists>pre. log (snd (session_scope body s0)) = pre @ [EvClose])"
proof (intro conjI allI impI)
  show "\<exists>pre. log (snd (session_scope body s0)) = pre @ [EvClose]"
    by (rule session_scope_closes)
qed (use assms in \<open>simp_all add: scope_ok scope_raise scope_commit_fails scope_interrupt\<close>)

theorem session_scope_contract_witness:
  "failing_body (s_users\<lparr>log := log s_users @ [EvOpen]\<rparr>)
     = (Inl (ValueError ''boom''), s_users\<lparr>log := [EvOpen]\<rparr>)
   \<and> is_Exception (ValueError ''boom'') \<and> quiet 2 (s_users\<lparr>log := [EvOpen]\<rparr>)
   \<and> fst (session_scope failing_body s_users) = Inl (ValueError ''boom'')
   \<and> log (snd (session_scope failing_body s_users)) = [EvOpen, EvRollback, EvClose]
   \<and> committed (snd (session_scope failing_body s_users)) = [alice]"
proof -
  have b: "failing_body (s_users\<lparr>log := log s_users @ [EvOpen]\<rparr>)
     = (Inl (ValueError ''boom''), s_users\<lparr>log := [EvOpen]\<rparr>)"
    by (simp add: failing_body_def s_users_def)
  have q: "quiet 2 (s_users\<lparr>log := [EvOpen]\<rparr>)"
    by (simp add: quiet_def s_users_def)
  show ?thesis
    using session_scope_contract [of failing_body s_users "Inl (ValueError ''boom'')"
        "s_users\<lparr>log := [EvOpen]\<rparr>"] q b
    by (simp add: s_users_def)
qed

subsection \<open>Failures inside the operation\<close>

text \<open>
  C1, as stated, at two runs. An interrupt during the load: the exception reaches the
  caller and the session is closed, but no rollback is called, because the handler of
  the scope is \<open>except Exception\<close>. A load that fails followed by a rollback that fails:
  the caller gets the error of the rollback, not the error of the load.
\<close>

theorem to_mysql_interrupt_counterexample:
  "fst (to_mysql ex_df users tmp_users ''ignore'' s_interrupted) = Inl KeyboardInterrupt
   \<and> log (snd (to_mysql ex_df users tmp_users ''ignore'' s_interrupted))
       = [EvOpen, EvCreate ''tmp_users'', EvInsertChunk 2, EvClose]
   \<and> EvRollback \<notin> set (log (snd (to_mysql ex_df users tmp_users ''ignore'' s_interrupted)))
   \<and> fst (to_mysql ex_df users tmp_users ''ignore'' s_lost) = Inl (SQLAlchemyError ''gone'')
   \<and> log (snd (to_mysql ex_df users tmp_users ''ignore'' s_lost))
       = [EvOpen, EvCreate ''tmp_users'', EvInsertChunk 2, EvRollback, EvClose]"
  by code_simp

text \<open>
  C1, amended. When the creation of the scratch table, the load or the merge raises
  inside a run of \<open>to_mysql\<close>, for any frame and any failure, the run ends with an
  error, the trace of the run holds no commit and the durable rows of the target are
  those before the run. When the failure \<open>e\<close> is an instance of \<open>Exception\<close> (as the
  errors of the database layer, ValueError and KeyError are) and the rollback and the
  close raise nothing themselves, \<open>e\<close> itself reaches the caller, after the rollback
  and the close in this order, and the transaction's view of the target is back at
  the durable rows. A failure that is not an instance of \<open>Exception\<close> reaches the
  caller after the close alone, without rollback call.
\<close>

theorem to_mysql_failure_rolls_back:
  assumes pol: "p = ''update'' \<or> p = ''ignore''"
    and s: "s = s0\<lparr>log := log s0 @ [EvOpen]\<rparr>"
    and fail: "create_table temp_table s = (Inl e, s1)
       \<or> (\<exists>sa. create_table temp_table s = (Inr (), sa)
              \<and> to_sql df temp_table 1000 sa = (Inl e, s1))
       \<or> (\<exists>sa sb. create_table temp_table s = (Inr (), sa)
              \<and> to_sql df temp_table 1000 sa = (Inr (), sb)
              \<and> my_insert target_table temp_table p sb = (Inl e, s1))"
  shows "isl (fst (to_mysql df target_table temp_table p s0))
       \<and> committed (snd (to_mysql df target_table temp_table p s0)) = committed s0
       \<and> (\<exists>evs. log (snd (to_mysql df target_table temp_table p s0)) = log s0 @ evs
                \<and> EvCommit \<notin> set evs)
       \<and> (is_Exception e \<and> quiet 2 s1 \<longrightarrow>
            fst (to_mysql df target_table temp_table p s0) = Inl e
          \<and> log (snd (to_mysql df target_table temp_table p s0)) = log s1 @ [EvRollback, EvClose]
          \<and> working (snd (to_mysql df target_table temp_table p s0)) = committed s0)
       \<and> (\<not> is_Exception e \<and> quiet 1 s1 \<longrightarrow>
            fst (to_mysql df target_table temp_table p s0) = Inl e
          \<and> log (snd (to_mysql df target_table temp_table p s0)) = log s1 @ [EvClose])"
proof -
  let ?body = "to_mysql_body df target_table temp_table p"
  have run: "to_mysql df target_table temp_table p s0 = session_scope ?body s0"
    using pol by (auto simp: to_mysql_def)
  have body: "?body (s0\<lparr>log := log s0 @ [EvOpen]\<rparr>) = (Inl e, s1)"
    using fail unfolding s [symmetric] by (auto simp: to_mysql_body_def)
  then have st: "db_step (s0\<lparr>log := log s0 @ [EvOpen]\<rparr>) s1"
    by (rule to_mysql_body_step)
  have c1: "committed s1 = committed s0"
    using st by (simp add: db_step_def)
  have a: "isl (fst (session_scope ?body s0)) \<and> db_step s0 (snd (session_scope ?body s0))"
    using body st by (rule scope_error_atomic)
  have b: "is_Exception e \<and> quiet 2 s1 \<longrightarrow>
            fst (session_scope ?body s0) = Inl e
          \<and> log (snd (session_scope ?body s0)) = log s1 @ [EvRollback, EvClose]
          \<and> working (snd (session_scope ?body s0)) = committed s0"
    using scope_raise [of ?body s0 e s1] body c1 by simp
  have c: "\<not> is_Exception e \<and> quiet 1 s1 \<longrightarrow>
            fst (session_scope ?body s0) = Inl e
          \<and> log (snd (session_scope ?body s0)) = log s1 @ [EvClose]"
    using scope_interrupt [of ?body s0 e s1] body by simp
  from a b c show ?thesis
    unfolding run by (simp add: db_step_def)
qed

theorem to_mysql_failure_rolls_back_witness:
  "fst (to_mysql bad_df users tmp_users ''ignore'' s_users) = Inl (SQLAlchemyError ''unknown column'')
   \<and> log (snd (to_mysql bad_df users tmp_users ''ignore'' s_users))
       = [EvOpen, EvCreate ''tmp_users'', EvInsertChunk 2, EvRollback, EvClose]
   \<and> committed (snd (to_mysql bad_df users tmp_users ''ignore'' s_users)) = [alice]
   \<and> working (snd (to_mysql bad_df users tmp_users ''ignore'' s_users)) = [alice]"
proof -
  let ?s = "s_users\<lparr>log := log s_users @ [EvOpen]\<rparr>"
  let ?sa = "s_users\<lparr>log := [EvOpen, EvCreate ''tmp_users''], scratch := Some []\<rparr>"
  let ?s1 = "s_users\<lparr>log := [EvOpen, EvCreate ''tmp_users'', EvInsertChunk 2], scratch := Some []\<rparr>"
  have c: "create_table tmp_users ?s = (Inr (), ?sa)"
    by (simp add: create_table_def engine_call_def s_users_def tmp_users_def)
  have l: "to_sql bad_df tmp_users 1000 ?sa = (Inl (SQLAlchemyError ''unknown column''), ?s1)"
    by (simp add: to_sql_def chunked.simps insert_chunk_def engine_call_def s_users_def
        tmp_users_def bad_df_def ex_col_def)
  have q: "is_Exception (SQLAlchemyError ''unknown column'') \<and> quiet 2 ?s1"
    by (simp add: quiet_def s_users_def)
  have f: "create_table tmp_users ?s = (Inl (SQLAlchemyError ''unknown column''), ?s1)
       \<or> (\<exists>sa. create_table tmp_users ?s = (Inr (), sa)
              \<and> to_sql bad_df tmp_users 1000 sa = (Inl (SQLAlchemyError ''unknown column''), ?s1))
       \<or> (\<exists>sa sb. create_table tmp_users ?s = (Inr (), sa)
              \<and> to_sql bad_df tmp_users 1000 sa = (Inr (), sb)
              \<and> my_insert users tmp_users ''ignore'' sb = (Inl (SQLAlchemyError ''unknown column''), ?s1))"
    using c l by blast
  show ?thesis
    using to_mysql_failure_rolls_back [where p = "''ignore''" and target_table = users, OF _ refl f] q
    by (simp add: s_users_def)
qed

subsection \<open>The column lists of the merge statement\<close>

lemma remove_each_filter:
  "distinct xs \<Longrightarrow> distinct ks \<Longrightarrow> set ks \<subseteq> set xs \<Longrightarrow>
   remove_each ks xs = Inr (filter (\<lambda>x. x \<notin> set ks) xs)"
proof (induction ks arbitrary: xs)
  case Nil
  then show ?case by simp
next
  case (Cons k ks)
  have r: "remove1 k xs = filter (\<lambda>x. x \<noteq> k) xs"
    using Cons.prems(1) by (simp add: distinct_remove1_removeAll removeAll_filter_not_eq) metis
  have "remove_each ks (remove1 k xs) = Inr (filter (\<lambda>x. x \<notin> set ks) (remove1 k xs))"
    using Cons.prems by (intro Cons.IH) auto
  then show ?case
    using Cons.prems r by (auto simp: py_remove_def intro: filter_cong)
qed

lemma map_filter_inj:
  assumes "inj_on f (set xs)" and "set ks \<subseteq> set xs"
  shows "filter (\<lambda>y. y \<notin> f ` set ks) (map f xs) = map f (filter (\<lambda>x. x \<notin> set ks) xs)"
proof -
  have "\<And>x. x \<in> set xs \<Longrightarrow> (f x \<notin> f ` set ks) = (x \<notin> set ks)"
    using assms by (auto simp: inj_on_def)
  then have "filter ((\<lambda>y. y \<notin> f ` set ks) \<circ> f) xs = filter (\<lambda>x. x \<notin> set ks) xs"
    by (intro filter_cong) auto
  then show ?thesis by (simp add: filter_map)
qed

lemma my_insert_stmt_ok:
  assumes pol: "p = ''update'' \<or> p = ''ignore''"
    and dk: "distinct (map c_key (columns t))"
    and dp: "distinct (primary_key t)"
    and sub: "set (primary_key t) \<subseteq> set (columns t)"
    and kn: "\<forall>k \<in> set (primary_key t). c_name k = c_key k"
    and res: "p = ''update'' \<longrightarrow>
       (\<forall>c \<in> set (columns t). c \<notin> set (primary_key t) \<longrightarrow> resolve tt (c_key c) \<noteq> None)"
    and left: "filter (\<lambda>c. c \<notin> set (primary_key t)) (columns t) \<noteq> []"
  shows "\<exists>stmt. my_insert_stmt tt t p = Inr stmt
           \<and> into stmt = tt
           \<and> select stmt = filter (\<lambda>c. c \<notin> set (primary_key t)) (columns t)
           \<and> names stmt = map c_key (select stmt)
           \<and> on_duplicate stmt = (if p = ''update'' then Some (update_dict (names stmt)) else None)
           \<and> prefixes stmt = (if p = ''update'' then [] else [''IGNORE''])"
proof -
  let ?cols = "columns t" and ?pks = "primary_key t"
  have inj: "inj_on c_key (set ?cols)" and dc: "distinct ?cols"
    using dk by (simp_all add: distinct_map)
  have a: "remove_each ?pks ?cols = Inr (filter (\<lambda>c. c \<notin> set ?pks) ?cols)"
    using dc dp sub by (rule remove_each_filter)
  have nk: "map c_name ?pks = map c_key ?pks"
    using kn by simp
  have dkp: "distinct (map c_key ?pks)"
    using dp inj sub by (simp add: distinct_map inj_on_subset)
  have "remove_each (map c_key ?pks) (map c_key ?cols)
        = Inr (filter (\<lambda>y. y \<notin> set (map c_key ?pks)) (map c_key ?cols))"
    using dk dkp sub by (intro remove_each_filter) auto
  then have b: "remove_each (map c_name ?pks) (map c_key ?cols)
        = Inr (map c_key (filter (\<lambda>c. c \<notin> set ?pks) ?cols))"
    unfolding nk using map_filter_inj [OF inj sub] by simp
  have c: "p = ''update'' \<longrightarrow>
      find (\<lambda>c. resolve tt c = None) (map c_key (filter (\<lambda>c. c \<notin> set ?pks) ?cols)) = None"
    using res by (auto simp: find_None_iff)
  show ?thesis
    using pol a b c left by (auto simp: my_insert_stmt_def from_select_def query_def)
qed

lemma my_insert_stmt_nothing_left:
  assumes pol: "p = ''update'' \<or> p = ''ignore''"
    and dk: "distinct (map c_key (columns t))"
    and dp: "distinct (primary_key t)"
    and sub: "set (primary_key t) \<subseteq> set (columns t)"
    and kn: "\<forall>k \<in> set (primary_key t). c_name k = c_key k"
    and none: "filter (\<lambda>c. c \<notin> set (primary_key t)) (columns t) = []"
  shows "my_insert_stmt tt t p
         = Inl (SQLAlchemyError ''Query contains no columns with which to SELECT from'')"
proof -
  let ?cols = "columns t" and ?pks = "primary_key t"
  have inj: "inj_on c_key (set ?cols)" and dc: "distinct ?cols"
    using dk by (simp_all add: distinct_map)
  have a: "remove_each ?pks ?cols = Inr (filter (\<lambda>c. c \<notin> set ?pks) ?cols)"
    using dc dp sub by (rule remove_each_filter)
  have nk: "map c_name ?pks = map c_key ?pks"
    using kn by simp
  have dkp: "distinct (map c_key ?pks)"
    using dp inj sub by (simp add: distinct_map inj_on_subset)
  have "remove_each (map c_key ?pks) (map c_key ?cols)
        = Inr (filter (\<lambda>y. y \<notin> set (map c_key ?pks)) (map c_key ?cols))"
    using dk dkp sub by (intro remove_each_filter) auto
  then have b: "remove_each (map c_name ?pks) (map c_key ?cols)
        = Inr (map c_key (filter (\<lambda>c. c \<notin> set ?pks) ?cols))"
    unfolding nk using map_filter_inj [OF inj sub] by simp
  show ?thesis
    using pol a b none by (auto simp: my_insert_stmt_def query_def)
qed


subsection \<open>The order of the calls in a run\<close>

lemma commit_log: "commit s = (r, s') \<Longrightarrow> \<exists>evs. log s' = log s @ evs"
  by (auto simp: commit_def split: prod.splits option.splits dest!: engine_call_fields)

lemma db_step_log: "db_step s s' \<Longrightarrow> \<exists>evs. log s' = log s @ evs"
  by (auto simp: db_step_def)

lemma try_block_log:
  "body s = (r, s1) \<Longrightarrow> try_block body s = (r', s') \<Longrightarrow> \<exists>evs. log s' = log s1 @ evs"
  by (cases r) (auto simp: try_block_def dest: commit_log)

lemma except_block_log: "except_block (r, s) = (r', s') \<Longrightarrow> \<exists>evs. log s' = log s @ evs"
  by (auto simp: except_block_def split: sum.splits if_splits prod.splits
      dest!: rollback_step db_step_log)

lemma finally_block_log: "finally_block (r, s) = (r', s') \<Longrightarrow> \<exists>evs. log s' = log s @ evs"
  by (auto simp: finally_block_def split: sum.splits prod.splits dest!: close_step db_step_log)

lemma session_scope_log:
  assumes "body (s0\<lparr>log := log s0 @ [EvOpen]\<rparr>) = (r, s1)"
  shows "\<exists>evs. log (snd (session_scope body s0)) = log s1 @ evs"
proof -
  let ?s = "s0\<lparr>log := log s0 @ [EvOpen]\<rparr>"
  obtain r1 s1' where t: "try_block body ?s = (r1, s1')" by (cases "try_block body ?s")
  obtain r2 s2 where e: "except_block (r1, s1') = (r2, s2)" by (cases "except_block (r1, s1')")
  obtain r3 s3 where f: "finally_block (r2, s2) = (r3, s3)" by (cases "finally_block (r2, s2)")
  from try_block_log [OF assms t] obtain a where "log s1' = log s1 @ a" ..
  moreover from except_block_log [OF e] obtain b where "log s2 = log s1' @ b" ..
  moreover from finally_block_log [OF f] obtain c where "log s3 = log s2 @ c" ..
  moreover have "session_scope body s0 = (r3, s3)"
    using t e f by (simp add: session_scope_def)
  ultimately show ?thesis by simp
qed

lemma create_table_log: "create_table t s = (r, s') \<Longrightarrow> log s' = log s @ [EvCreate (tablename t)]"
  by (auto simp: create_table_def split: prod.splits option.splits dest!: engine_call_fields)

lemma to_mysql_body_log:
  assumes "to_mysql_body df tt t p s = (r, s')"
  shows "\<exists>evs. log s' = log s @ [EvCreate (tablename t)] @ evs"
proof (cases "create_table t s")
  case c: (Pair r1 s1)
  then have l1: "log s1 = log s @ [EvCreate (tablename t)]" by (rule create_table_log)
  show ?thesis
  proof (cases r1)
    case (Inl e)
    with c assms l1 show ?thesis by (simp add: to_mysql_body_def)
  next
    case r1: (Inr u)
    show ?thesis
    proof (cases "to_sql df t 1000 s1")
      case l: (Pair r2 s2)
      then have "db_step s1 s2" by (rule to_sql_step)
      then obtain a where l2: "log s2 = log s1 @ a" by (auto simp: db_step_def)
      show ?thesis
      proof (cases r2)
        case (Inl e)
        with c r1 l assms have "s' = s2" by (simp add: to_mysql_body_def)
        with l1 l2 show ?thesis by simp
      next
        case (Inr u2)
        with c r1 l assms have "my_insert tt t p s2 = (r, s')" by (simp add: to_mysql_body_def)
        then have "db_step s2 s'" by (rule my_insert_step)
        then obtain b where "log s' = log s2 @ b" by (auto simp: db_step_def)
        with l1 l2 show ?thesis by simp
      qed
    qed
  qed
qed

lemma to_mysql_creates_first:
  assumes "p = ''update'' \<or> p = ''ignore''"
  shows "\<exists>rest. log (snd (to_mysql df tt t p s)) = log s @ [EvOpen, EvCreate (tablename t)] @ rest"
proof -
  let ?body = "to_mysql_body df tt t p"
  obtain r s1 where b: "?body (s\<lparr>log := log s @ [EvOpen]\<rparr>) = (r, s1)"
    by (cases "?body (s\<lparr>log := log s @ [EvOpen]\<rparr>)")
  from to_mysql_body_log [OF b] obtain a where "log s1 = log s @ [EvOpen, EvCreate (tablename t)] @ a"
    by auto
  moreover from session_scope_log [of ?body s r s1] b obtain c where
    "log (snd (session_scope ?body s)) = log s1 @ c" by blast
  moreover have "to_mysql df tt t p s = session_scope ?body s"
    using assms by (auto simp: to_mysql_def)
  ultimately show ?thesis by simp
qed

subsection \<open>The number of primary-key columns\<close>

text \<open>
  C5, as stated, at a scratch schema with two primary-key columns. With a frame that
  supplies both key columns the whole run succeeds: no error is raised at all. With a
  frame that leaves them out the run fails, but at the load, with the database's
  error, after the scratch table has been created.
\<close>

theorem primary_key_count_counterexample:
  "length (primary_key tmp_two_pk) = 2
   \<and> fst (to_mysql df_keys users tmp_two_pk ''ignore'' s_users) = Inr ()
   \<and> fst (to_mysql ex_df users tmp_two_pk ''ignore'' s_users)
       = Inl (SQLAlchemyError ''field has no default value'')
   \<and> log (snd (to_mysql ex_df users tmp_two_pk ''ignore'' s_users))
       = [EvOpen, EvCreate ''tmp_users'', EvInsertChunk 2, EvRollback, EvClose]"
  by code_simp

text \<open>
  C5, amended. The number of primary-key columns of the scratch schema is not checked,
  and nothing is raised before the scratch table is created: in every run with an
  accepted policy the creation of the scratch table is the first call. For a schema
  whose primary-key columns (one or several) are distinct columns of the schema with
  key equal to name, \<open>_my_insert\<close> removes every one of them: when a column is left
  (and, under \<open>'update'\<close>, the target has the columns left) it raises nothing and
  builds the statement over the columns left, in their order; when none is left it
  fails because there is nothing to select. (A class without primary-key column
  cannot be mapped, so the operation never receives one.)
\<close>

theorem primary_key_count_unchecked:
  assumes pol: "p = ''update'' \<or> p = ''ignore''"
    and dk: "distinct (map c_key (columns t))"
    and pk: "primary_key t \<noteq> []"
    and dp: "distinct (primary_key t)"
    and sub: "set (primary_key t) \<subseteq> set (columns t)"
    and kn: "\<forall>k \<in> set (primary_key t). c_name k = c_key k"
  shows "(filter (\<lambda>c. c \<notin> set (primary_key t)) (columns t) \<noteq> []
          \<and> (p = ''update'' \<longrightarrow>
               (\<forall>c \<in> set (columns t). c \<notin> set (primary_key t) \<longrightarrow> resolve tt (c_key c) \<noteq> None))
          \<longrightarrow> (\<exists>stmt. my_insert_stmt tt t p = Inr stmt
                 \<and> select stmt = filter (\<lambda>c. c \<notin> set (primary_key t)) (columns t)
                 \<and> names stmt = map c_key (select stmt)))
       \<and> (filter (\<lambda>c. c \<notin> set (primary_key t)) (columns t) = []
          \<longrightarrow> my_insert_stmt tt t p
               = Inl (SQLAlchemyError ''Query contains no columns with which to SELECT from''))
       \<and> (\<exists>rest. log (snd (to_mysql df tt t p s))
                  = log s @ [EvOpen, EvCreate (tablename t)] @ rest)"
proof (intro conjI impI)
  assume a: "filter (\<lambda>c. c \<notin> set (primary_key t)) (columns t) \<noteq> []
          \<and> (p = ''update'' \<longrightarrow>
               (\<forall>c \<in> set (columns t). c \<notin> set (primary_key t) \<longrightarrow> resolve tt (c_key c) \<noteq> None))"
  then have left: "filter (\<lambda>c. c \<notin> set (primary_key t)) (columns t) \<noteq> []"
    and res: "p = ''update'' \<longrightarrow>
       (\<forall>c \<in> set (columns t). c \<notin> set (primary_key t) \<longrightarrow> resolve tt (c_key c) \<noteq> None)"
    by blast+
  from my_insert_stmt_ok [OF pol dk dp sub kn res left]
  show "\<exists>stmt. my_insert_stmt tt t p = Inr stmt
                 \<and> select stmt = filter (\<lambda>c. c \<notin> set (primary_key t)) (columns t)
                 \<and> names stmt = map c_key (select stmt)"
    by blast
next
  assume "filter (\<lambda>c. c \<notin> set (primary_key t)) (columns t) = []"
  with pol dk dp sub kn
  show "my_insert_stmt tt t p
      = Inl (SQLAlchemyError ''Query contains no columns with which to SELECT from'')"
    by (rule my_insert_stmt_nothing_left)
next
  show "\<exists>rest. log (snd (to_mysql df tt t p s)) = log s @ [EvOpen, EvCreate (tablename t)] @ rest"
    using pol by (rule to_mysql_creates_first)
qed

theorem primary_key_count_unchecked_witness:
  "distinct (map c_key (columns tmp_two_pk)) \<and> distinct (primary_key tmp_two_pk)
   \<and> length (primary_key tmp_two_pk) = 2
   \<and> set (primary_key tmp_two_pk) \<subseteq> set (columns tmp_two_pk)
   \<and> map c_name (primary_key tmp_two_pk) = map c_key (primary_key tmp_two_pk)
   \<and> filter (\<lambda>c. c \<notin> set (primary_key tmp_two_pk)) (columns tmp_two_pk)
       = [ex_col ''email'', ex_col ''name'']
   \<and> (\<exists>stmt. my_insert_stmt users tmp_two_pk ''update'' = Inr stmt
           \<and> select stmt = [ex_col ''email'', ex_col ''name'']
           \<and> names stmt = map c_key (select stmt))
   \<and> my_insert_stmt users tmp_only_keys ''update''
       = Inl (SQLAlchemyError ''Query contains no columns with which to SELECT from'')
   \<and> (\<exists>rest. log (snd (to_mysql ex_df users tmp_two_pk ''update'' s_users))
                  = log s_users @ [EvOpen, EvCreate (tablename tmp_two_pk)] @ rest)"
proof -
  have h1: "distinct (map c_key (columns tmp_two_pk))"
    and h0: "primary_key tmp_two_pk \<noteq> []"
    and h2: "distinct (primary_key tmp_two_pk)"
    and h3: "set (primary_key tmp_two_pk) \<subseteq> set (columns tmp_two_pk)"
    and h4: "\<forall>k \<in> set (primary_key tmp_two_pk). c_name k = c_key k"
    and h5: "length (primary_key tmp_two_pk) = 2"
    and h6: "map c_name (primary_key tmp_two_pk) = map c_key (primary_key tmp_two_pk)"
    and h8: "filter (\<lambda>c. c \<notin> set (primary_key tmp_two_pk)) (columns tmp_two_pk)
       = [ex_col ''email'', ex_col ''name'']"
    by (simp_all add: tmp_two_pk_def ex_col_def)
  have h7: "''update'' = ''update'' \<longrightarrow>
       (\<forall>c \<in> set (columns tmp_two_pk). c \<notin> set (primary_key tmp_two_pk) \<longrightarrow>
          resolve users (c_key c) \<noteq> None)"
    by (simp add: tmp_two_pk_def users_def ex_col_def resolve_def)
  have k1: "distinct (map c_key (columns tmp_only_keys))"
    and k0: "primary_key tmp_only_keys \<noteq> []"
    and k2: "distinct (primary_key tmp_only_keys)"
    and k3: "set (primary_key tmp_only_keys) \<subseteq> set (columns tmp_only_keys)"
    and k4: "\<forall>k \<in> set (primary_key tmp_only_keys). c_name k = c_key k"
    and k5: "filter (\<lambda>c. c \<notin> set (primary_key tmp_only_keys)) (columns tmp_only_keys) = []"
    by (simp_all add: tmp_only_keys_def ex_col_def)
  have p: "''update'' = ''update'' \<or> ''update'' = ''ignore''" by simp
  from primary_key_count_unchecked [OF p h1 h0 h2 h3 h4, of users ex_df s_users] h7 h8
  have a: "\<exists>stmt. my_insert_stmt users tmp_two_pk ''update'' = Inr stmt
           \<and> select stmt = [ex_col ''email'', ex_col ''name'']
           \<and> names stmt = map c_key (select stmt)"
    and c: "\<exists>rest. log (snd (to_mysql ex_df users tmp_two_pk ''update'' s_users))
                  = log s_users @ [EvOpen, EvCreate (tablename tmp_two_pk)] @ rest"
    by simp_all
  from primary_key_count_unchecked [OF p k1 k0 k2 k3 k4, of users ex_df s_users] k5
  have b: "my_insert_stmt users tmp_only_keys ''update''
       = Inl (SQLAlchemyError ''Query contains no columns with which to SELECT from'')"
    by simp
  from a b c h1 h2 h3 h5 h6 h8 show ?thesis by blast
qed

text \<open>
  C6, at a schema with exactly one primary-key column whose key is not its name: the
  removal by \<open>k.name\<close> from the list of \<open>c.key\<close> raises ValueError, so no column list is
  produced. (For a primary-key column with key equal to name, \<open>my_insert_stmt_ok\<close> gives
  the claimed lists.)
\<close>

theorem key_name_mismatch_raises:
  "my_insert_stmt users tmp_keyed ''ignore'' = Inl (ValueError ''list.remove(x): x not in list'')"
  by (simp add: my_insert_stmt_def py_remove_def tmp_keyed_def ex_col_def)

subsection \<open>The chunks of the load\<close>

lemma chunked_2500:
  assumes "length xs = 2500"
  shows "chunked 1000 xs = [take 1000 xs, take 1000 (drop 1000 xs), drop 2000 xs]"
proof -
  have a: "xs \<noteq> []" "drop 1000 xs \<noteq> []" "drop 1000 (drop 1000 xs) \<noteq> []"
    using assms by auto
  have b: "drop 1000 (drop 1000 (drop 1000 xs)) = []"
    using assms by simp
  have c: "take 1000 (drop 1000 (drop 1000 xs)) = drop 2000 xs"
    using assms by simp
  have "chunked 1000 xs = take 1000 xs # chunked 1000 (drop 1000 xs)"
    using a(1) by (subst chunked.simps) simp
  also have "chunked 1000 (drop 1000 xs)
      = take 1000 (drop 1000 xs) # chunked 1000 (drop 1000 (drop 1000 xs))"
    using a(2) by (subst chunked.simps) simp
  also have "chunked 1000 (drop 1000 (drop 1000 xs))
      = take 1000 (drop 1000 (drop 1000 xs)) # chunked 1000 (drop 1000 (drop 1000 (drop 1000 xs)))"
    using a(3) by (subst chunked.simps) simp
  also have "chunked 1000 (drop 1000 (drop 1000 (drop 1000 xs))) = []"
    unfolding b by (subst chunked.simps) simp
  finally show ?thesis unfolding c .
qed

lemma create_table_ok:
  assumes "quiet (Suc n) s" "scratch s = None"
  shows "create_table t s =
     (Inr (), s\<lparr>log := log s @ [EvCreate (tablename t)], faults := tl (faults s),
               scratch := Some []\<rparr>)"
  using assms by (simp add: create_table_def engine_call_quiet)

lemma quiet_Suc: "quiet (Suc n) s \<Longrightarrow> quiet n (s\<lparr>faults := tl (faults s)\<rparr>)"
  by (cases "faults s") (auto simp: quiet_def)

lemma quiet_mono: "quiet (Suc n) s \<Longrightarrow> quiet n s"
  using set_take_subset_set_take [of n "Suc n" "faults s"] by (auto simp: quiet_def)


lemma length_number_rows: "length (number_rows t labels n rows) = length rows"
  by (simp add: number_rows_def)

lemma number_rows_append:
  "number_rows t labels n (xs @ ys)
     = number_rows t labels n xs @ number_rows t labels (n + length xs) ys"
  by (simp add: number_rows_def enumerate_append_eq)

lemma number_rows_nth:
  "i < length rows \<Longrightarrow> number_rows t labels n rows ! i = scratch_row t labels (int (n + i)) (rows ! i)"
  by (simp add: number_rows_def nth_enumerate_eq)

lemma insert_chunk_ok:
  assumes "quiet (Suc n) s" "scratch s = Some rs"
    "set labels \<subseteq> set (map c_name (columns t))" "\<not> key_without_value t labels"
  shows "insert_chunk t labels ch s =
     (Inr (), s\<lparr>log := log s @ [EvInsertChunk (length ch)], faults := tl (faults s),
               scratch := Some (rs @ number_rows t labels (Suc (length rs)) ch)\<rparr>)"
  using assms by (auto simp: insert_chunk_def engine_call_quiet)

lemma concat_chunked: "0 < n \<Longrightarrow> concat (chunked n xs) = xs"
proof (induction n xs rule: chunked.induct)
  case (1 n xs)
  then show ?case
    by (subst chunked.simps) auto
qed

lemma insert_chunks_ok:
  assumes "quiet (length chs) s" "scratch s = Some rs"
    "set labels \<subseteq> set (map c_name (columns t))" "\<not> key_without_value t labels"
  shows "insert_chunks t labels chs s =
     (Inr (), s\<lparr>log := log s @ map (\<lambda>ch. EvInsertChunk (length ch)) chs,
               faults := drop (length chs) (faults s),
               scratch := Some (rs @ number_rows t labels (Suc (length rs)) (concat chs))\<rparr>)"
  using assms
proof (induction chs arbitrary: s rs)
  case Nil
  then show ?case by (simp add: number_rows_def)
next
  case (Cons ch chs)
  let ?rs1 = "rs @ number_rows t labels (Suc (length rs)) ch"
  let ?s1 = "s\<lparr>log := log s @ [EvInsertChunk (length ch)], faults := tl (faults s),
               scratch := Some ?rs1\<rparr>"
  from Cons.prems(1) have q: "quiet (Suc (length chs)) s" by simp
  have i: "insert_chunk t labels ch s = (Inr (), ?s1)"
    using q Cons.prems(2,3,4) by (rule insert_chunk_ok)
  have q': "quiet (length chs) ?s1"
    using quiet_Suc [OF q] by (simp add: quiet_def)
  have "insert_chunks t labels chs ?s1 =
     (Inr (), ?s1\<lparr>log := log ?s1 @ map (\<lambda>ch. EvInsertChunk (length ch)) chs,
               faults := drop (length chs) (faults ?s1),
               scratch := Some (?rs1 @ number_rows t labels (Suc (length ?rs1)) (concat chs))\<rparr>)"
    using q' _ Cons.prems(3,4) by (rule Cons.IH) simp
  then show ?case
    using i by (simp add: drop_Suc number_rows_append length_number_rows)
qed

lemma to_sql_ok:
  assumes "quiet (length (chunked 1000 (df_rows df))) s" "scratch s = Some rs"
    "set (df_columns df) \<subseteq> set (map c_name (columns t))"
    "\<not> key_without_value t (df_columns df)"
  shows "to_sql df t 1000 s =
     (Inr (), s\<lparr>log := log s @ map (\<lambda>ch. EvInsertChunk (length ch)) (chunked 1000 (df_rows df)),
               faults := drop (length (chunked 1000 (df_rows df))) (faults s),
               scratch := Some (rs @ number_rows t (df_columns df) (Suc (length rs)) (df_rows df))\<rparr>)"
  unfolding to_sql_def using insert_chunks_ok [OF assms] by (simp add: concat_chunked)

lemma load_2500:
  assumes len: "length (df_rows df) = 2500"
    and cols: "set (df_columns df) \<subseteq> set (map c_name (columns t))"
    and keys: "\<not> key_without_value t (df_columns df)"
    and sc: "scratch s = Some []"
    and q: "quiet 3 s"
  shows "to_sql df t 1000 s =
     (Inr (), s\<lparr>log := log s @ [EvInsertChunk 1000, EvInsertChunk 1000, EvInsertChunk 500],
               faults := drop 3 (faults s),
               scratch := Some (number_rows t (df_columns df) 1 (df_rows df))\<rparr>)"
proof -
  have c: "chunked 1000 (df_rows df)
      = [take 1000 (df_rows df), take 1000 (drop 1000 (df_rows df)), drop 2000 (df_rows df)]"
    using len by (rule chunked_2500)
  have q': "quiet (length (chunked 1000 (df_rows df))) s"
    using q unfolding c by (simp add: numeral_3_eq_3)
  show ?thesis
    using to_sql_ok [OF q' sc cols keys] len unfolding c by (simp add: numeral_3_eq_3)
qed

lemma no_chunk_refl: "no_chunk s s"
  by (simp add: no_chunk_def)

lemma no_chunk_trans: "no_chunk s s' \<Longrightarrow> no_chunk s' s'' \<Longrightarrow> no_chunk s s''"
  by (auto simp: no_chunk_def)

lemma execute_no_chunk: "execute stmt s = (r, s') \<Longrightarrow> no_chunk s s'"
  by (auto simp: execute_def no_chunk_def
      split: prod.splits option.splits if_splits sum.splits dest!: engine_call_fields)

lemma my_insert_no_chunk: "my_insert tt t p s = (r, s') \<Longrightarrow> no_chunk s s'"
  by (auto simp: my_insert_def no_chunk_refl split: sum.splits dest: execute_no_chunk)

lemma commit_no_chunk: "commit s = (r, s') \<Longrightarrow> no_chunk s s'"
  by (auto simp: commit_def no_chunk_def split: prod.splits option.splits dest!: engine_call_fields)

lemma rollback_no_chunk: "rollback s = (r, s') \<Longrightarrow> no_chunk s s'"
  by (auto simp: rollback_def no_chunk_def split: prod.splits option.splits dest!: engine_call_fields)

lemma close_no_chunk: "close s = (r, s') \<Longrightarrow> no_chunk s s'"
  by (auto simp: close_def no_chunk_def split: prod.splits option.splits dest!: engine_call_fields)

lemma except_block_no_chunk: "except_block (r, s) = (r', s') \<Longrightarrow> no_chunk s s'"
  by (auto simp: except_block_def no_chunk_refl split: sum.splits if_splits prod.splits
      dest: rollback_no_chunk)

lemma finally_block_no_chunk: "finally_block (r, s) = (r', s') \<Longrightarrow> no_chunk s s'"
  by (auto simp: finally_block_def split: sum.splits prod.splits dest: close_no_chunk)

lemma session_scope_no_chunk:
  assumes "body (s0\<lparr>log := log s0 @ [EvOpen]\<rparr>) = (r, s1)"
  shows "no_chunk s1 (snd (session_scope body s0))"
proof -
  let ?s = "s0\<lparr>log := log s0 @ [EvOpen]\<rparr>"
  obtain r1 s1' where t: "try_block body ?s = (r1, s1')" by (cases "try_block body ?s")
  obtain r2 s2 where e: "except_block (r1, s1') = (r2, s2)" by (cases "except_block (r1, s1')")
  obtain r3 s3 where f: "finally_block (r2, s2) = (r3, s3)" by (cases "finally_block (r2, s2)")
  have "no_chunk s1 s1'"
    using assms t by (cases r) (auto simp: try_block_def no_chunk_refl dest: commit_no_chunk)
  moreover have "no_chunk s1' s2" using e by (rule except_block_no_chunk)
  moreover have "no_chunk s2 s3" using f by (rule finally_block_no_chunk)
  moreover have "session_scope body s0 = (r3, s3)"
    using t e f by (simp add: session_scope_def)
  ultimately show ?thesis by (auto intro: no_chunk_trans)
qed


text \<open>
  C9. For a frame of 2500 rows whose columns are columns of the scratch table (and
  which leaves no column of a several-column key without value), in a run where the
  environment raises nothing during the creation and the load: \<open>to_mysql\<close> (chunk size
  1000) executes exactly three inserts, of 1000, 1000 and 500 rows, and \<open>_my_insert\<close>
  is called on the state in which the scratch table holds all 2500 rows; nothing after
  the load inserts rows into the scratch table.
\<close>

theorem three_chunks_before_merge:
  assumes pol: "p = ''update'' \<or> p = ''ignore''"
    and len: "length (df_rows df) = 2500"
    and cols: "set (df_columns df) \<subseteq> set (map c_name (columns temp_table))"
    and keys: "\<not> key_without_value temp_table (df_columns df)"
    and sc: "scratch s0 = None"
    and q: "quiet 4 s0"
  shows "to_mysql_body df target_table temp_table p (s0\<lparr>log := log s0 @ [EvOpen]\<rparr>)
         = my_insert target_table temp_table p
             (s0\<lparr>log := log s0 @ [EvOpen, EvCreate (tablename temp_table),
                                  EvInsertChunk 1000, EvInsertChunk 1000, EvInsertChunk 500],
                 faults := drop 4 (faults s0),
                 scratch := Some (number_rows temp_table (df_columns df) 1 (df_rows df))\<rparr>)
       \<and> length (number_rows temp_table (df_columns df) 1 (df_rows df)) = 2500
       \<and> (\<exists>rest. log (snd (to_mysql df target_table temp_table p s0))
                   = log s0 @ [EvOpen, EvCreate (tablename temp_table),
                               EvInsertChunk 1000, EvInsertChunk 1000, EvInsertChunk 500] @ rest
                 \<and> (\<forall>n. EvInsertChunk n \<notin> set rest))"
proof -
  let ?s = "s0\<lparr>log := log s0 @ [EvOpen]\<rparr>"
  let ?body = "to_mysql_body df target_table temp_table p"
  let ?rows = "number_rows temp_table (df_columns df) 1 (df_rows df)"
  from q have q4: "quiet (Suc 3) ?s" by (simp add: quiet_def)
  let ?sa = "?s\<lparr>log := log ?s @ [EvCreate (tablename temp_table)], faults := tl (faults ?s),
               scratch := Some []\<rparr>"
  have c: "create_table temp_table ?s = (Inr (), ?sa)"
    using q4 by (rule create_table_ok) (simp add: sc)
  have q3: "quiet 3 ?sa"
    using quiet_Suc [OF q4] by (simp add: quiet_def)
  let ?sb = "?sa\<lparr>log := log ?sa @ [EvInsertChunk 1000, EvInsertChunk 1000, EvInsertChunk 500],
               faults := drop 3 (faults ?sa), scratch := Some ?rows\<rparr>"
  have l: "to_sql df temp_table 1000 ?sa = (Inr (), ?sb)"
    using len cols keys _ q3 by (rule load_2500) simp
  have d: "drop 3 (tl (faults s0)) = drop 4 (faults s0)"
    by (simp add: eval_nat_numeral drop_Suc)
  let ?sm = "s0\<lparr>log := log s0 @ [EvOpen, EvCreate (tablename temp_table),
                                  EvInsertChunk 1000, EvInsertChunk 1000, EvInsertChunk 500],
                 faults := drop 4 (faults s0), scratch := Some ?rows\<rparr>"
  have sb: "?sb = ?sm" using d by simp
  have b: "?body ?s = my_insert target_table temp_table p ?sm"
    using c l unfolding sb by (simp add: to_mysql_body_def)
  obtain r s1 where m: "my_insert target_table temp_table p ?sm = (r, s1)"
    by (cases "my_insert target_table temp_table p ?sm")
  have n1: "no_chunk ?sm s1" using m by (rule my_insert_no_chunk)
  have n2: "no_chunk s1 (snd (session_scope ?body s0))"
    using b m by (intro session_scope_no_chunk [of ?body s0 r]) simp
  have run: "to_mysql df target_table temp_table p s0 = session_scope ?body s0"
    using pol by (auto simp: to_mysql_def)
  from no_chunk_trans [OF n1 n2] have
    "\<exists>rest. log (snd (to_mysql df target_table temp_table p s0))
                   = log s0 @ [EvOpen, EvCreate (tablename temp_table),
                               EvInsertChunk 1000, EvInsertChunk 1000, EvInsertChunk 500] @ rest
                 \<and> (\<forall>n. EvInsertChunk n \<notin> set rest)"
    unfolding run no_chunk_def by simp
  with b len show ?thesis by (simp add: length_number_rows)
qed

theorem three_chunks_before_merge_witness:
  "length (df_rows big_df) = 2500
   \<and> set (df_columns big_df) \<subseteq> set (map c_name (columns tmp_users))
   \<and> \<not> key_without_value tmp_users (df_columns big_df)
   \<and> scratch s_users = None \<and> quiet 4 s_users
   \<and> (\<exists>rest. log (snd (to_mysql big_df users tmp_users ''ignore'' s_users))
                   = log s_users @ [EvOpen, EvCreate (tablename tmp_users),
                               EvInsertChunk 1000, EvInsertChunk 1000, EvInsertChunk 500] @ rest
                 \<and> (\<forall>n. EvInsertChunk n \<notin> set rest))"
proof -
  have h: "''ignore'' = ''update'' \<or> ''ignore'' = ''ignore''"
    "length (df_rows big_df) = 2500"
    "set (df_columns big_df) \<subseteq> set (map c_name (columns tmp_users))"
    "\<not> key_without_value tmp_users (df_columns big_df)"
    "scratch s_users = None" "quiet 4 s_users"
    by (simp_all add: big_df_def tmp_users_def ex_col_def s_users_def quiet_def
        key_without_value_def)
  from three_chunks_before_merge [OF h, of users] h show ?thesis by blast
qed

subsection \<open>Columns of the frame against the scratch schema\<close>

lemma insert_chunk_unknown:
  assumes "quiet (Suc n) s" "scratch s = Some rs"
    "\<not> set labels \<subseteq> set (map c_name (columns t))"
  shows "insert_chunk t labels ch s =
     (Inl (SQLAlchemyError ''unknown column''),
      s\<lparr>log := log s @ [EvInsertChunk (length ch)], faults := tl (faults s)\<rparr>)"
  using assms by (auto simp: insert_chunk_def engine_call_quiet)

lemma to_sql_unknown:
  assumes rows: "df_rows df \<noteq> []"
    and cols: "\<not> set (df_columns df) \<subseteq> set (map c_name (columns t))"
    and sc: "scratch s = Some rs"
    and q: "quiet (Suc n) s"
  shows "to_sql df t 1000 s =
     (Inl (SQLAlchemyError ''unknown column''),
      s\<lparr>log := log s @ [EvInsertChunk (min (length (df_rows df)) 1000)], faults := tl (faults s)\<rparr>)"
proof -
  have "chunked 1000 (df_rows df) = take 1000 (df_rows df) # chunked 1000 (drop 1000 (df_rows df))"
    using rows by (subst chunked.simps) simp
  then show ?thesis
    using insert_chunk_unknown [OF q sc cols, of "take 1000 (df_rows df)"]
    by (simp add: to_sql_def)
qed

lemma map_of_keyed:
  "distinct (map f xs) \<Longrightarrow> x \<in> set xs \<Longrightarrow> map_of (map (\<lambda>c. (f c, g c)) xs) (f x) = Some (g x)"
  by (induction xs) (auto simp: rev_image_eqI)

lemma scratch_row_get:
  assumes "distinct (map c_name (columns t))" "c \<in> set (columns t)"
  shows "row_get (scratch_row t labels n vs) (c_name c)
         = (case map_of (zip labels vs) (c_name c) of
              Some v \<Rightarrow> v
            | None \<Rightarrow> if primary_key t = [c] then IntV n else c_default c)"
proof -
  let ?g = "\<lambda>c. case map_of (zip labels vs) (c_name c) of
                  Some v \<Rightarrow> v
                | None \<Rightarrow> if primary_key t = [c] then IntV n else c_default c"
  have "map_of (map (\<lambda>c. (c_name c, ?g c)) (columns t)) (c_name c) = Some (?g c)"
    using assms by (rule map_of_keyed)
  then show ?thesis
    unfolding row_get_def scratch_row_def by simp
qed

lemma zip_absent: "k \<notin> set labels \<Longrightarrow> map_of (zip labels vs) k = None"
  by (metis in_set_zipE map_of_SomeD not_Some_eq)

lemma stored_values:
  assumes d: "distinct (map c_name (columns t))" and c: "c \<in> set (columns t)"
    and i: "i < length rows"
  shows "c_name c \<notin> set labels \<Longrightarrow> primary_key t \<noteq> [c] \<Longrightarrow>
           row_get (number_rows t labels n rows ! i) (c_name c) = c_default c"
    and "c_name c \<notin> set labels \<Longrightarrow> primary_key t = [c] \<Longrightarrow>
           row_get (number_rows t labels n rows ! i) (c_name c) = IntV (int (n + i))"
    and "j < length labels \<Longrightarrow> labels ! j = c_name c \<Longrightarrow> distinct labels \<Longrightarrow>
           length (rows ! i) = length labels \<Longrightarrow>
           row_get (number_rows t labels n rows ! i) (c_name c) = rows ! i ! j"
proof -
  have g: "row_get (number_rows t labels n rows ! i) (c_name c)
         = (case map_of (zip labels (rows ! i)) (c_name c) of
              Some v \<Rightarrow> v
            | None \<Rightarrow> if primary_key t = [c] then IntV (int n + int i) else c_default c)"
    using i by (simp add: number_rows_nth scratch_row_get [OF d c])
  show "c_name c \<notin> set labels \<Longrightarrow> primary_key t \<noteq> [c] \<Longrightarrow>
           row_get (number_rows t labels n rows ! i) (c_name c) = c_default c"
    unfolding g by (simp add: zip_absent)
  show "c_name c \<notin> set labels \<Longrightarrow> primary_key t = [c] \<Longrightarrow>
           row_get (number_rows t labels n rows ! i) (c_name c) = IntV (int (n + i))"
    unfolding g by (simp add: zip_absent)
  show "j < length labels \<Longrightarrow> labels ! j = c_name c \<Longrightarrow> distinct labels \<Longrightarrow>
           length (rows ! i) = length labels \<Longrightarrow>
           row_get (number_rows t labels n rows ! i) (c_name c) = rows ! i ! j"
  proof -
    assume a: "j < length labels" "labels ! j = c_name c" "distinct labels"
      "length (rows ! i) = length labels"
    have "map_of (zip labels (rows ! i)) (labels ! j) = Some (rows ! i ! j)"
      using a by (intro map_of_zip_nth) simp_all
    then show ?thesis unfolding g using a(2) by simp
  qed
qed

lemma to_mysql_unknown_column:
  assumes pol: "p = ''update'' \<or> p = ''ignore''"
    and rows: "df_rows df \<noteq> []"
    and cols: "\<not> set (df_columns df) \<subseteq> set (map c_name (columns t))"
    and sc: "scratch s0 = None"
    and q: "quiet 4 s0"
  shows "to_mysql df tt t p s0 =
     (Inl (SQLAlchemyError ''unknown column''),
      s0\<lparr>log := log s0 @ [EvOpen, EvCreate (tablename t),
                           EvInsertChunk (min (length (df_rows df)) 1000), EvRollback, EvClose],
          faults := drop 4 (faults s0), working := committed s0\<rparr>)"
proof -
  let ?s = "s0\<lparr>log := log s0 @ [EvOpen]\<rparr>"
  let ?body = "to_mysql_body df tt t p"
  from q have q4: "quiet (Suc 3) ?s" by (simp add: quiet_def)
  let ?sa = "?s\<lparr>log := log ?s @ [EvCreate (tablename t)], faults := tl (faults ?s),
               scratch := Some []\<rparr>"
  have c: "create_table t ?s = (Inr (), ?sa)"
    using q4 by (rule create_table_ok) (simp add: sc)
  have q3: "quiet (Suc 2) ?sa"
    using quiet_Suc [OF q4] by (simp add: quiet_def)
  let ?s1 = "?sa\<lparr>log := log ?sa @ [EvInsertChunk (min (length (df_rows df)) 1000)],
               faults := tl (faults ?sa)\<rparr>"
  have l: "to_sql df t 1000 ?sa = (Inl (SQLAlchemyError ''unknown column''), ?s1)"
    using rows cols _ q3 by (rule to_sql_unknown) simp
  have b: "?body ?s = (Inl (SQLAlchemyError ''unknown column''), ?s1)"
    using c l by (simp add: to_mysql_body_def)
  have q2: "quiet 2 ?s1"
    using quiet_Suc [OF q3] by (simp add: quiet_def)
  have d: "tl (tl (tl (tl (faults s0)))) = drop 4 (faults s0)"
    by (simp add: eval_nat_numeral drop_Suc)
  have "session_scope ?body s0 = (Inl (SQLAlchemyError ''unknown column''),
      ?s1\<lparr>log := log ?s1 @ [EvRollback, EvClose], faults := tl (tl (faults ?s1)),
          working := committed ?s1, scratch := None\<rparr>)"
    using b _ q2 by (rule scope_raise) simp
  then show ?thesis
    using pol d sc by (auto simp: to_mysql_def)
qed


text \<open>
  C8, as stated, at a frame without rows that has a column unknown to the scratch
  schema: no insert is executed, nothing fails, the run succeeds.
\<close>

theorem empty_frame_counterexample:
  "''nom'' \<in> set (df_columns empty_bad_df)
   \<and> ''nom'' \<notin> set (map c_name (columns tmp_users))
   \<and> fst (to_mysql empty_bad_df users tmp_users ''ignore'' s_users) = Inr ()"
  by code_simp

text \<open>
  C8, amended. A frame that has at least one row and a column that is not a column of
  the scratch schema makes the whole run fail at the first insert with the database's
  unknown-column error (the specification's SchemaMismatchError), no row accepted,
  and the final state is the initial one but for the trace: the target is unchanged.
  A frame whose columns are all columns of the scratch schema (and which leaves no
  column of a several-column key without value) is loaded whole, and in each stored
  row a column that the frame has holds the frame's value, the single auto-increment
  key that the frame does not have holds the row's number, and any other column that
  the frame does not have holds the schema's default.
\<close>

theorem load_checks_columns:
  "((p = ''update'' \<or> p = ''ignore'') \<and> df_rows bad \<noteq> []
      \<and> \<not> set (df_columns bad) \<subseteq> set (map c_name (columns t1))
      \<and> scratch s0 = None \<and> quiet 4 s0 \<longrightarrow>
     to_mysql bad tt t1 p s0 =
       (Inl (SQLAlchemyError ''unknown column''),
        s0\<lparr>log := log s0 @ [EvOpen, EvCreate (tablename t1),
                             EvInsertChunk (min (length (df_rows bad)) 1000), EvRollback, EvClose],
            faults := drop 4 (faults s0), working := committed s0\<rparr>))
   \<and> (set (df_columns df) \<subseteq> set (map c_name (columns t))
      \<and> \<not> key_without_value t (df_columns df) \<and> scratch s = Some rs
      \<and> quiet (length (chunked 1000 (df_rows df))) s \<longrightarrow>
     fst (to_sql df t 1000 s) = Inr ()
     \<and> scratch (snd (to_sql df t 1000 s))
         = Some (rs @ number_rows t (df_columns df) (Suc (length rs)) (df_rows df)))
   \<and> (distinct (map c_name (columns t)) \<and> c \<in> set (columns t) \<and> i < length (df_rows df) \<longrightarrow>
       (c_name c \<notin> set (df_columns df) \<and> primary_key t \<noteq> [c] \<longrightarrow>
          row_get (number_rows t (df_columns df) n (df_rows df) ! i) (c_name c) = c_default c)
     \<and> (c_name c \<notin> set (df_columns df) \<and> primary_key t = [c] \<longrightarrow>
          row_get (number_rows t (df_columns df) n (df_rows df) ! i) (c_name c)
            = IntV (int (n + i)))
     \<and> (j < length (df_columns df) \<and> df_columns df ! j = c_name c
          \<and> distinct (df_columns df) \<and> length (df_rows df ! i) = length (df_columns df) \<longrightarrow>
          row_get (number_rows t (df_columns df) n (df_rows df) ! i) (c_name c)
            = df_rows df ! i ! j))"
proof (intro conjI impI)
  assume "(p = ''update'' \<or> p = ''ignore'') \<and> df_rows bad \<noteq> []
      \<and> \<not> set (df_columns bad) \<subseteq> set (map c_name (columns t1))
      \<and> scratch s0 = None \<and> quiet 4 s0"
  then show "to_mysql bad tt t1 p s0 =
       (Inl (SQLAlchemyError ''unknown column''),
        s0\<lparr>log := log s0 @ [EvOpen, EvCreate (tablename t1),
                             EvInsertChunk (min (length (df_rows bad)) 1000), EvRollback, EvClose],
            faults := drop 4 (faults s0), working := committed s0\<rparr>)"
    by (intro to_mysql_unknown_column) simp_all
next
  assume a: "set (df_columns df) \<subseteq> set (map c_name (columns t))
      \<and> \<not> key_without_value t (df_columns df) \<and> scratch s = Some rs
      \<and> quiet (length (chunked 1000 (df_rows df))) s"
  then have "to_sql df t 1000 s =
     (Inr (), s\<lparr>log := log s @ map (\<lambda>ch. EvInsertChunk (length ch)) (chunked 1000 (df_rows df)),
               faults := drop (length (chunked 1000 (df_rows df))) (faults s),
               scratch := Some (rs @ number_rows t (df_columns df) (Suc (length rs)) (df_rows df))\<rparr>)"
    by (intro to_sql_ok) simp_all
  then show "fst (to_sql df t 1000 s) = Inr ()"
    and "scratch (snd (to_sql df t 1000 s))
         = Some (rs @ number_rows t (df_columns df) (Suc (length rs)) (df_rows df))"
    by simp_all
next
  assume a: "distinct (map c_name (columns t)) \<and> c \<in> set (columns t) \<and> i < length (df_rows df)"
    and b: "c_name c \<notin> set (df_columns df) \<and> primary_key t \<noteq> [c]"
  from a b show "row_get (number_rows t (df_columns df) n (df_rows df) ! i) (c_name c) = c_default c"
    by (intro stored_values(1)) simp_all
next
  assume a: "distinct (map c_name (columns t)) \<and> c \<in> set (columns t) \<and> i < length (df_rows df)"
    and b: "c_name c \<notin> set (df_columns df) \<and> primary_key t = [c]"
  from a b show "row_get (number_rows t (df_columns df) n (df_rows df) ! i) (c_name c)
      = IntV (int (n + i))"
    by (intro stored_values(2)) simp_all
next
  assume a: "distinct (map c_name (columns t)) \<and> c \<in> set (columns t) \<and> i < length (df_rows df)"
    and b: "j < length (df_columns df) \<and> df_columns df ! j = c_name c
          \<and> distinct (df_columns df) \<and> length (df_rows df ! i) = length (df_columns df)"
  from a b show "row_get (number_rows t (df_columns df) n (df_rows df) ! i) (c_name c)
      = df_rows df ! i ! j"
    by (intro stored_values(3)) simp_all
qed

theorem load_checks_columns_witness:
  "to_mysql bad_df users tmp_users ''update'' s_users =
       (Inl (SQLAlchemyError ''unknown column''),
        s_users\<lparr>log := [EvOpen, EvCreate ''tmp_users'', EvInsertChunk 2, EvRollback, EvClose]\<rparr>)
   \<and> fst (to_sql sub_df tmp_members 1000 s_created) = Inr ()
   \<and> scratch (snd (to_sql sub_df tmp_members 1000 s_created))
       = Some [[(''id'', IntV 1), (''email'', StrV ''b@x.com''), (''name'', StrV ''unknown'')],
               [(''id'', IntV 2), (''email'', StrV ''c@x.com''), (''name'', StrV ''unknown'')]]
   \<and> row_get (number_rows tmp_members (df_columns sub_df) 1 (df_rows sub_df) ! 1) ''name''
       = StrV ''unknown''"
proof -
  let ?c = "\<lparr>c_name = ''name'', c_key = ''name'', c_default = StrV ''unknown''\<rparr>"
  have h: "df_rows bad_df \<noteq> []"
    "\<not> set (df_columns bad_df) \<subseteq> set (map c_name (columns tmp_users))"
    "scratch s_users = None" "quiet 4 s_users"
    by (simp_all add: bad_df_def tmp_users_def ex_col_def s_users_def quiet_def)
  have g: "set (df_columns sub_df) \<subseteq> set (map c_name (columns tmp_members))"
    "\<not> key_without_value tmp_members (df_columns sub_df)"
    "scratch s_created = Some []"
    "quiet (length (chunked 1000 (df_rows sub_df))) s_created"
    "distinct (map c_name (columns tmp_members))" "?c \<in> set (columns tmp_members)"
    "1 < length (df_rows sub_df)" "c_name ?c \<notin> set (df_columns sub_df)"
    "primary_key tmp_members \<noteq> [?c]"
    by (simp_all add: sub_df_def tmp_members_def ex_col_def s_created_def s_users_def quiet_def
        key_without_value_def)
  have m: "min (length (df_rows bad_df)) 1000 = 2" "log s_users = []" "faults s_users = []"
    "working s_users = committed s_users" "tablename tmp_users = ''tmp_users''"
    by (simp_all add: bad_df_def s_users_def tmp_users_def)
  have e: "s_users\<lparr>log := [EvOpen, EvCreate ''tmp_users'', EvInsertChunk 2, EvRollback, EvClose],
            faults := [], working := committed s_users\<rparr>
         = s_users\<lparr>log := [EvOpen, EvCreate ''tmp_users'', EvInsertChunk 2, EvRollback, EvClose]\<rparr>"
    by (simp add: s_users_def)
  have n: "[] @ number_rows tmp_members (df_columns sub_df) (Suc (length ([] :: row list)))
             (df_rows sub_df)
       = [[(''id'', IntV 1), (''email'', StrV ''b@x.com''), (''name'', StrV ''unknown'')],
          [(''id'', IntV 2), (''email'', StrV ''c@x.com''), (''name'', StrV ''unknown'')]]"
    by code_simp
  from load_checks_columns [of "''update''" bad_df tmp_users s_users users sub_df tmp_members
      s_created "[]" ?c 1 1 0] h g
  have a: "to_mysql bad_df users tmp_users ''update'' s_users =
       (Inl (SQLAlchemyError ''unknown column''),
        s_users\<lparr>log := log s_users @ [EvOpen, EvCreate (tablename tmp_users),
                             EvInsertChunk (min (length (df_rows bad_df)) 1000), EvRollback, EvClose],
            faults := drop 4 (faults s_users), working := committed s_users\<rparr>)"
    and b: "fst (to_sql sub_df tmp_members 1000 s_created) = Inr ()"
    and c: "scratch (snd (to_sql sub_df tmp_members 1000 s_created))
         = Some ([] @ number_rows tmp_members (df_columns sub_df) (Suc (length ([] :: row list)))
                    (df_rows sub_df))"
    and d: "row_get (number_rows tmp_members (df_columns sub_df) 1 (df_rows sub_df) ! 1) (c_name ?c)
         = c_default ?c"
    by simp_all
  from a have a': "to_mysql bad_df users tmp_users ''update'' s_users =
       (Inl (SQLAlchemyError ''unknown column''),
        s_users\<lparr>log := [EvOpen, EvCreate ''tmp_users'', EvInsertChunk 2, EvRollback, EvClose]\<rparr>)"
    using m e by simp
  from c have c': "scratch (snd (to_sql sub_df tmp_members 1000 s_created))
       = Some [[(''id'', IntV 1), (''email'', StrV ''b@x.com''), (''name'', StrV ''unknown'')],
               [(''id'', IntV 2), (''email'', StrV ''c@x.com''), (''name'', StrV ''unknown'')]]"
    unfolding n .
  from d have d': "row_get (number_rows tmp_members (df_columns sub_df) 1 (df_rows sub_df) ! 1) ''name''
       = StrV ''unknown''"
    by simp
  from a' b c' d' show ?thesis by blast
qed

subsection \<open>The statement and the rows it offers\<close>

lemma find_keyed:
  "distinct (map f xs) \<Longrightarrow> x \<in> set xs \<Longrightarrow> find (\<lambda>c. f c = f x) xs = Some x"
  by (induction xs) (auto simp: rev_image_eqI)

lemma resolve_key:
  "distinct (map c_key (columns t)) \<Longrightarrow> c \<in> set (columns t) \<Longrightarrow> resolve t (c_key c) = Some (c_name c)"
  by (simp add: resolve_def find_keyed)

lemma aligned_stmt:
  assumes "aligned t temp pk" "p = ''update'' \<or> p = ''ignore''"
  shows "my_insert_stmt t temp p = Inr (merge_stmt t pk p)"
proof -
  have "\<exists>stmt. my_insert_stmt t temp p = Inr stmt
           \<and> into stmt = t
           \<and> select stmt = filter (\<lambda>c. c \<notin> set (primary_key temp)) (columns temp)
           \<and> names stmt = map c_key (select stmt)
           \<and> on_duplicate stmt = (if p = ''update'' then Some (update_dict (names stmt)) else None)
           \<and> prefixes stmt = (if p = ''update'' then [] else [''IGNORE''])"
    using assms by (intro my_insert_stmt_ok) (auto simp: aligned_def resolve_key)
  then obtain stmt where s: "my_insert_stmt t temp p = Inr stmt" "into stmt = t"
      "select stmt = filter (\<lambda>c. c \<noteq> pk) (columns t)"
      "names stmt = map c_key (select stmt)"
      "on_duplicate stmt = (if p = ''update'' then Some (update_dict (names stmt)) else None)"
      "prefixes stmt = (if p = ''update'' then [] else [''IGNORE''])"
    using assms(1) by (auto simp: aligned_def)
  have "stmt = merge_stmt t pk p"
    by (rule insert_stmt.equality) (simp_all add: merge_stmt_def s(2-6))
  with s(1) show ?thesis by simp
qed

lemma map_of_update_dict:
  "map_of (foldl (\<lambda>d c. AList.update c c d) d0 ns) k
     = (if k \<in> set ns then Some k else map_of d0 k)"
  by (induction ns arbitrary: d0) (auto simp: update_conv')

lemma map_of_update_dict': "map_of (update_dict ns) k = (if k \<in> set ns then Some k else None)"
  by (simp add: update_dict_def map_of_update_dict)

lemma max_id_fold_ge:
  "m \<le> fold (\<lambda>r m. case row_get r n of IntV i \<Rightarrow> max i m | _ \<Rightarrow> m) rows m"
proof (induction rows arbitrary: m)
  case Nil
  then show ?case by simp
next
  case (Cons r rows)
  show ?case
    using Cons.IH [of "case row_get r n of IntV i \<Rightarrow> max i m | _ \<Rightarrow> m"]
    by (auto split: val.splits)
qed

lemma max_id_fold_bound:
  "old \<in> set rows \<Longrightarrow> row_get old n = IntV i \<Longrightarrow>
   i \<le> fold (\<lambda>r m. case row_get r n of IntV i \<Rightarrow> max i m | _ \<Rightarrow> m) rows m"
proof (induction rows arbitrary: m)
  case Nil
  then show ?case by simp
next
  case (Cons r rows)
  show ?case
  proof (cases "old = r")
    case True
    then show ?thesis
      using Cons.prems(2) max_id_fold_ge [of "max i m" n rows] by simp
  next
    case False
    then show ?thesis using Cons by simp
  qed
qed

lemma fresh_id:
  assumes "primary_key t = [pk]" "old \<in> set rows"
  shows "row_get old (c_name pk) \<noteq> IntV (max_id t rows + 1)"
proof
  assume a: "row_get old (c_name pk) = IntV (max_id t rows + 1)"
  have "max_id t rows + 1 \<le> max_id t rows"
    using max_id_fold_bound [OF assms(2) a, of 0] assms(1) by (simp add: max_id_def)
  then show False by simp
qed


lemma zip_map_same: "zip (map f xs) (map g xs) = map (\<lambda>x. (f x, g x)) xs"
  by (induction xs) auto

lemma map_of_keyed_none:
  "k \<notin> set (map f xs) \<Longrightarrow> map_of (map (\<lambda>c. (f c, g c)) xs) k = None"
  by (induction xs) auto

lemma aligned_nonpk:
  assumes "aligned t temp pk"
  shows "distinct (map c_key (filter (\<lambda>c. c \<noteq> pk) (columns t)))"
    and "c_key pk \<notin> set (map c_key (filter (\<lambda>c. c \<noteq> pk) (columns t)))"
proof -
  have d: "distinct (map c_key (columns t))" and m: "pk \<in> set (columns t)"
    using assms by (simp_all add: aligned_def)
  show "distinct (map c_key (filter (\<lambda>c. c \<noteq> pk) (columns t)))"
    using d by (rule distinct_map_filter)
  have "inj_on c_key (set (columns t))"
    using d by (simp add: distinct_map)
  then show "c_key pk \<notin> set (map c_key (filter (\<lambda>c. c \<noteq> pk) (columns t)))"
    using m by (auto simp: inj_on_def)
qed

lemma given_get:
  assumes a: "aligned t temp pk" and tc: "tc \<in> set (columns t)"
  shows "map_of (zip (names (merge_stmt t pk p))
                     (map (\<lambda>c. row_get r (c_name c)) (select (merge_stmt t pk p)))) (c_key tc)
         = (if tc = pk then None else Some (row_get r (c_name tc)))"
proof -
  let ?np = "filter (\<lambda>c. c \<noteq> pk) (columns t)"
  have z: "zip (names (merge_stmt t pk p)) (map (\<lambda>c. row_get r (c_name c)) (select (merge_stmt t pk p)))
        = map (\<lambda>c. (c_key c, row_get r (c_name c))) ?np"
    by (simp add: merge_stmt_def zip_map_same)
  show ?thesis
  proof (cases "tc = pk")
    case True
    then show ?thesis
      unfolding z using aligned_nonpk(2) [OF a] by (simp add: map_of_keyed_none)
  next
    case False
    then have "tc \<in> set ?np" using tc by simp
    with aligned_nonpk(1) [OF a]
    have "map_of (map (\<lambda>c. (c_key c, row_get r (c_name c))) ?np) (c_key tc)
          = Some (row_get r (c_name tc))"
      by (rule map_of_keyed)
    with False show ?thesis unfolding z by simp
  qed
qed

lemma candidate_get:
  assumes a: "aligned t temp pk" and tc: "tc \<in> set (columns t)"
  shows "row_get (candidate (merge_stmt t pk p) rows r) (c_name tc)
         = (if tc = pk then IntV (max_id t rows + 1) else row_get r (c_name tc))"
proof -
  let ?st = "merge_stmt t pk p"
  let ?g = "\<lambda>tc. case map_of (zip (names ?st) (map (\<lambda>c. row_get r (c_name c)) (select ?st))) (c_key tc) of
                 Some v \<Rightarrow> v
               | None \<Rightarrow> if tc \<in> set (primary_key t) then IntV (max_id t rows + 1) else c_default tc"
  have d: "distinct (map c_name (columns t))" and pk: "primary_key t = [pk]"
    using a by (simp_all add: aligned_def)
  have c: "candidate ?st rows r = map (\<lambda>tc. (c_name tc, ?g tc)) (columns t)"
    by (simp add: candidate_def Let_def merge_stmt_def)
  have "map_of (map (\<lambda>tc. (c_name tc, ?g tc)) (columns t)) (c_name tc) = Some (?g tc)"
    using d tc by (rule map_of_keyed)
  then have "row_get (candidate ?st rows r) (c_name tc) = ?g tc"
    unfolding c row_get_def by simp
  also have "?g tc = (if tc = pk then IntV (max_id t rows + 1) else row_get r (c_name tc))"
    using given_get [OF a tc, of p r] pk by simp
  finally show ?thesis .
qed

lemma apply_update_get:
  assumes a: "aligned t temp pk" and tc: "tc \<in> set (columns t)"
  shows "row_get (apply_update t (update_dict (names (merge_stmt t pk p))) old new) (c_name tc)
         = (if tc = pk then row_get old (c_name pk) else row_get new (c_name tc))"
proof -
  let ?d = "update_dict (names (merge_stmt t pk p))"
  let ?g = "\<lambda>tc. case map_of ?d (c_key tc) of
                  None \<Rightarrow> row_get old (c_name tc)
                | Some src \<Rightarrow>
                    (case resolve t src of
                       None \<Rightarrow> row_get old (c_name tc)
                     | Some n \<Rightarrow> row_get new n)"
  have d: "distinct (map c_name (columns t))" and dk: "distinct (map c_key (columns t))"
    using a by (simp_all add: aligned_def)
  have "map_of (map (\<lambda>tc. (c_name tc, ?g tc)) (columns t)) (c_name tc) = Some (?g tc)"
    using d tc by (rule map_of_keyed)
  then have g: "row_get (apply_update t ?d old new) (c_name tc) = ?g tc"
    unfolding apply_update_def row_get_def by simp
  have n: "names (merge_stmt t pk p) = map c_key (filter (\<lambda>c. c \<noteq> pk) (columns t))"
    by (simp add: merge_stmt_def)
  show ?thesis
  proof (cases "tc = pk")
    case True
    then have "map_of ?d (c_key tc) = None"
      using aligned_nonpk(2) [OF a] unfolding n by (simp add: map_of_update_dict')
    with True g show ?thesis by simp
  next
    case False
    then have "c_key tc \<in> set (names (merge_stmt t pk p))"
      using tc unfolding n by simp
    then have "map_of ?d (c_key tc) = Some (c_key tc)"
      by (simp add: map_of_update_dict')
    moreover have "resolve t (c_key tc) = Some (c_name tc)"
      using dk tc by (rule resolve_key)
    ultimately show ?thesis using g False by simp
  qed
qed

lemma ukey_cong:
  assumes a: "aligned t temp pk"
    and e: "\<And>tc. tc \<in> set (columns t) \<Longrightarrow> tc \<noteq> pk \<Longrightarrow> row_get x (c_name tc) = row_get y (c_name tc)"
  shows "ukey t x = ukey t y"
proof -
  have "row_get x n = row_get y n" if "n \<in> set (unique_index t)" for n
  proof -
    from that a have "n \<in> set (map c_name (filter (\<lambda>c. c \<noteq> pk) (columns t)))"
      by (auto simp: aligned_def)
    then obtain tc where "tc \<in> set (columns t)" "tc \<noteq> pk" "n = c_name tc" by auto
    then show ?thesis using e by simp
  qed
  then show ?thesis by (simp add: ukey_def)
qed

lemma ukey_candidate:
  assumes a: "aligned t temp pk"
  shows "ukey t (candidate (merge_stmt t pk p) rows r) = ukey t r"
  using a by (rule ukey_cong) (simp add: candidate_get [OF a])

lemma same_key_ukey:
  "same_key (unique_index t) old new = (Null \<notin> set (ukey t new) \<and> ukey t old = ukey t new)"
  by (auto simp: same_key_def ukey_def image_iff)

lemma conflicts_matches:
  assumes a: "aligned t temp pk" and o: "old \<in> set rows"
  shows "conflicts t old (candidate (merge_stmt t pk p) rows r) = matches t old r"
proof -
  let ?cand = "candidate (merge_stmt t pk p) rows r"
  have pk: "primary_key t = [pk]" and m: "pk \<in> set (columns t)"
    using a by (simp_all add: aligned_def)
  have "row_get ?cand (c_name pk) = IntV (max_id t rows + 1)"
    using candidate_get [OF a m] by simp
  then have "\<not> same_key [c_name pk] old ?cand"
    using fresh_id [OF pk o] by (simp add: same_key_def)
  then have "conflicts t old ?cand
      = (unique_index t \<noteq> [] \<and> same_key (unique_index t) old ?cand)"
    using pk by (simp add: conflicts_def unique_keys_def)
  then show ?thesis
    by (simp add: same_key_ukey ukey_candidate [OF a] matches_def)
qed

subsection \<open>One row of the batch\<close>

lemma update_first_cong:
  "(\<And>x. x \<in> set xs \<Longrightarrow> P x = Q x) \<Longrightarrow> update_first P f xs = update_first Q f xs"
  by (induction xs) auto

lemma length_update_first: "length (update_first P f xs) = length xs"
  by (induction xs) auto

lemma map_update_first:
  "(\<And>x. x \<in> set xs \<Longrightarrow> P x \<Longrightarrow> g (f x) = g x) \<Longrightarrow> map g (update_first P f xs) = map g xs"
  by (induction xs) auto



text \<open>What the statement of each policy does with one row of the scratch table.\<close>

lemma merge_row_ignore:
  assumes a: "aligned t temp pk"
  shows "merge_row (merge_stmt t pk ''ignore'') rows r =
     Inr (if \<exists>old \<in> set rows. matches t old r then rows
          else rows @ [candidate (merge_stmt t pk ''ignore'') rows r])"
proof -
  let ?st = "merge_stmt t pk ''ignore''"
  have c: "(\<exists>old \<in> set rows. conflicts t old (candidate ?st rows r))
         = (\<exists>old \<in> set rows. matches t old r)"
    using conflicts_matches [OF a] by blast
  have i: "into ?st = t" "on_duplicate ?st = None" "prefixes ?st = [''IGNORE'']"
    by (simp_all add: merge_stmt_def)
  show ?thesis
    unfolding merge_row_def Let_def i c by simp
qed

lemma merge_row_update:
  assumes a: "aligned t temp pk"
  shows "merge_row (merge_stmt t pk ''update'') rows r =
     Inr (if \<exists>old \<in> set rows. matches t old r
          then update_first (\<lambda>old. matches t old r)
                 (\<lambda>old. apply_update t (update_dict (names (merge_stmt t pk ''update''))) old
                          (candidate (merge_stmt t pk ''update'') rows r)) rows
          else rows @ [candidate (merge_stmt t pk ''update'') rows r])"
proof -
  let ?st = "merge_stmt t pk ''update''"
  let ?f = "\<lambda>old. apply_update t (update_dict (names ?st)) old (candidate ?st rows r)"
  have c: "(\<exists>old \<in> set rows. conflicts t old (candidate ?st rows r))
         = (\<exists>old \<in> set rows. matches t old r)"
    using conflicts_matches [OF a] by blast
  have u: "update_first (\<lambda>old. conflicts t old (candidate ?st rows r)) ?f rows
         = update_first (\<lambda>old. matches t old r) ?f rows"
    by (rule update_first_cong) (rule conflicts_matches [OF a])
  have i: "into ?st = t" "on_duplicate ?st = Some (update_dict (names ?st))"
    by (simp_all add: merge_stmt_def)
  show ?thesis
    unfolding merge_row_def Let_def i c using u by simp
qed


lemma agrees_update:
  assumes a: "aligned t temp pk"
  shows "agrees t pk (apply_update t (update_dict (names (merge_stmt t pk p))) old
                        (candidate (merge_stmt t pk q) rows r)) r"
  by (simp add: agrees_def candidate_get [OF a] apply_update_get [OF a])

lemma agrees_ukey:
  assumes a: "aligned t temp pk" and "agrees t pk row r"
  shows "ukey t row = ukey t r"
  using a by (rule ukey_cong) (use assms(2) in \<open>simp add: agrees_def\<close>)

text \<open>
  Under either policy a duplicate keeps the number of rows and their values at the
  unique index, and a row that is no duplicate is appended.
\<close>

lemma merge_row_step:
  assumes a: "aligned t temp pk" and p: "p = ''update'' \<or> p = ''ignore''"
  shows "\<exists>rows'. merge_row (merge_stmt t pk p) rows r = Inr rows'
       \<and> (if \<exists>old \<in> set rows. matches t old r
           then length rows' = length rows \<and> map (ukey t) rows' = map (ukey t) rows
           else \<exists>c. rows' = rows @ [c] \<and> ukey t c = ukey t r)"
proof (cases "p = ''update''")
  case True
  let ?f = "\<lambda>old. apply_update t (update_dict (names (merge_stmt t pk ''update''))) old
                          (candidate (merge_stmt t pk ''update'') rows r)"
  have k: "ukey t (?f old) = ukey t old" if "matches t old r" for old
    using agrees_ukey [OF a agrees_update [OF a]] that by (simp add: matches_def)
  show ?thesis
    unfolding True merge_row_update [OF a]
    using k by (auto simp: length_update_first ukey_candidate [OF a] intro!: map_update_first)
next
  case False
  with p have i: "p = ''ignore''" by simp
  show ?thesis
    unfolding i merge_row_ignore [OF a] by (auto simp: ukey_candidate [OF a])
qed

subsection \<open>The whole batch\<close>

lemma matches_iff:
  assumes "unique_index t \<noteq> []" "Null \<notin> set (ukey t r)"
  shows "(\<exists>old \<in> set rows. matches t old r) = (ukey t r \<in> ukey t ` set rows)"
  using assms by (auto simp: matches_def image_iff) metis

lemma merge_rows_count:
  assumes a: "aligned t temp pk" and p: "p = ''update'' \<or> p = ''ignore''"
    and u: "unique_index t \<noteq> []"
    and n: "\<forall>r \<in> set batch. Null \<notin> set (ukey t r)"
  shows "\<exists>rows'. merge_rows (merge_stmt t pk p) rows batch = Inr rows'
       \<and> length rows' = length rows + card (ukey t ` set batch - ukey t ` set rows)
       \<and> ukey t ` set rows' = ukey t ` set rows \<union> ukey t ` set batch"
  using n
proof (induction batch arbitrary: rows)
  case Nil
  then show ?case by simp
next
  case (Cons r batch)
  let ?K = "ukey t"
  from Cons.prems have nr: "Null \<notin> set (?K r)" and nb: "\<forall>r \<in> set batch. Null \<notin> set (?K r)"
    by simp_all
  from merge_row_step [OF a p, of rows r] obtain rows1 where
    m: "merge_row (merge_stmt t pk p) rows r = Inr rows1"
    and s: "if \<exists>old \<in> set rows. matches t old r
            then length rows1 = length rows \<and> map ?K rows1 = map ?K rows
            else \<exists>c. rows1 = rows @ [c] \<and> ?K c = ?K r"
    by blast
  from Cons.IH [OF nb, of rows1] obtain rows' where
    r: "merge_rows (merge_stmt t pk p) rows1 batch = Inr rows'"
    and l: "length rows' = length rows1 + card (?K ` set batch - ?K ` set rows1)"
    and k: "?K ` set rows' = ?K ` set rows1 \<union> ?K ` set batch"
    by blast
  have res: "merge_rows (merge_stmt t pk p) rows (r # batch) = Inr rows'"
    using m r by simp
  show ?case
  proof (cases "?K r \<in> ?K ` set rows")
    case True
    then have "\<exists>old \<in> set rows. matches t old r"
      using matches_iff [OF u nr] by simp
    with s have l1: "length rows1 = length rows" and k1: "map ?K rows1 = map ?K rows"
      by simp_all
    from k1 have ks: "?K ` set rows1 = ?K ` set rows"
      by (metis set_map)
    have "?K ` set (r # batch) - ?K ` set rows = ?K ` set batch - ?K ` set rows"
      using True by auto
    then show ?thesis
      using res l k l1 ks True by auto
  next
    case False
    then have "\<not> (\<exists>old \<in> set rows. matches t old r)"
      using matches_iff [OF u nr] by simp
    with s obtain c where c: "rows1 = rows @ [c]" "?K c = ?K r" by auto
    then have ks: "?K ` set rows1 = insert (?K r) (?K ` set rows)" by auto
    have f: "finite (?K ` set batch - insert (?K r) (?K ` set rows))" by simp
    have "?K ` set (r # batch) - ?K ` set rows
        = insert (?K r) (?K ` set batch - insert (?K r) (?K ` set rows))"
      using False by auto
    then have "card (?K ` set (r # batch) - ?K ` set rows)
        = Suc (card (?K ` set batch - insert (?K r) (?K ` set rows)))"
      using f by simp
    then show ?thesis
      using res l k c(1) ks by auto
  qed
qed

lemma merge_rows_ignore_noop:
  assumes a: "aligned t temp pk"
    and u: "unique_index t \<noteq> []"
    and n: "\<forall>r \<in> set batch. Null \<notin> set (ukey t r)"
    and s: "ukey t ` set batch \<subseteq> ukey t ` set rows"
  shows "merge_rows (merge_stmt t pk ''ignore'') rows batch = Inr rows"
  using n s
proof (induction batch)
  case Nil
  then show ?case by simp
next
  case (Cons r batch)
  then have "\<exists>old \<in> set rows. matches t old r"
    using matches_iff [OF u, of r rows] by simp
  then have "merge_row (merge_stmt t pk ''ignore'') rows r = Inr rows"
    unfolding merge_row_ignore [OF a] by simp
  then show ?case using Cons by simp
qed







subsection \<open>A run without failure\<close>

lemma quiet_nil: "faults s = [] \<Longrightarrow> quiet n s"
  by (simp add: quiet_def)

lemma execute_ok:
  assumes q: "faults s = []" and sc: "scratch s = Some batch"
    and a: "aligned t temp pk"
    and m: "merge_rows (merge_stmt t pk p) (working s) batch = Inr rows'"
  shows "execute (merge_stmt t pk p) s =
     (Inr (), s\<lparr>log := log s @ [EvExecute (merge_stmt t pk p)], working := rows'\<rparr>)"
proof -
  let ?st = "merge_stmt t pk p"
  have e: "engine_call (EvExecute ?st) s = (None, s\<lparr>log := log s @ [EvExecute ?st]\<rparr>)"
    using q by (simp add: engine_call_def)
  have s1: "select ?st \<noteq> []" "length (names ?st) = length (select ?st)"
    using a by (simp_all add: merge_stmt_def aligned_def)
  have dk: "distinct (map c_key (columns t))" using a by (simp add: aligned_def)
  have "resolve (into ?st) k \<noteq> None" if "k \<in> set (names ?st)" for k
  proof -
    from that obtain c where "c \<in> set (columns t)" "k = c_key c"
      by (auto simp: merge_stmt_def)
    then show ?thesis using resolve_key [OF dk] by (simp add: merge_stmt_def)
  qed
  then have s3: "\<not> (\<exists>k \<in> set (names ?st). resolve (into ?st) k = None)" by blast
  show ?thesis
    unfolding execute_def e using sc s1 s3 m by simp
qed

lemma to_mysql_run:
  assumes a: "aligned t temp pk" and p: "p = ''update'' \<or> p = ''ignore''"
    and cols: "set (df_columns df) \<subseteq> set (map c_name (columns temp))"
    and f: "faults s0 = []" and sc: "scratch s0 = None"
    and m: "merge_rows (merge_stmt t pk p) (working s0) (batch_rows temp df) = Inr rows'"
  shows "to_mysql df t temp p s0 =
     (Inr (), s0\<lparr>log := log s0 @ [EvOpen, EvCreate (tablename temp)]
                    @ map (\<lambda>ch. EvInsertChunk (length ch)) (chunked 1000 (df_rows df))
                    @ [EvExecute (merge_stmt t pk p), EvCommit, EvClose],
                committed := rows', working := rows'\<rparr>)"
proof -
  let ?s = "s0\<lparr>log := log s0 @ [EvOpen]\<rparr>"
  let ?body = "to_mysql_body df t temp p"
  let ?batch = "number_rows temp (df_columns df) (Suc (length ([] :: row list))) (df_rows df)"
  let ?chs = "chunked 1000 (df_rows df)"
  let ?st = "merge_stmt t pk p"
  let ?sa = "?s\<lparr>log := log ?s @ [EvCreate (tablename temp)], faults := tl (faults ?s),
               scratch := Some []\<rparr>"
  have c: "create_table temp ?s = (Inr (), ?sa)"
    by (rule create_table_ok [of 0]) (simp_all add: quiet_nil f sc)
  let ?sb = "?sa\<lparr>log := log ?sa @ map (\<lambda>ch. EvInsertChunk (length ch)) ?chs,
               faults := drop (length ?chs) (faults ?sa),
               scratch := Some ([] @ ?batch)\<rparr>"
  have k: "\<not> key_without_value temp (df_columns df)"
    using a by (simp add: key_without_value_def aligned_def)
  have l: "to_sql df temp 1000 ?sa = (Inr (), ?sb)"
    by (rule to_sql_ok) (use cols k in \<open>simp_all add: quiet_nil f\<close>)
  have st: "my_insert_stmt t temp p = Inr ?st"
    using a p by (rule aligned_stmt)
  let ?sc = "?sb\<lparr>log := log ?sb @ [EvExecute ?st], working := rows'\<rparr>"
  have e: "execute ?st ?sb = (Inr (), ?sc)"
    by (rule execute_ok [OF _ _ a]) (use f m in \<open>simp_all add: batch_rows_def\<close>)
  have b: "?body ?s = (Inr (), ?sc)"
    using c l st e by (simp add: to_mysql_body_def my_insert_def)
  have "session_scope ?body s0 = (Inr (), ?sc\<lparr>log := log ?sc @ [EvCommit, EvClose],
       faults := tl (tl (faults ?sc)), committed := working ?sc, scratch := None\<rparr>)"
    using b by (rule scope_ok) (simp add: quiet_nil f)
  then show ?thesis
    using p f sc by (auto simp: to_mysql_def)
qed


subsection \<open>The ignore policy\<close>

text \<open>
  C3, as stated, at three inputs. A frame with the same new address twice: two rows of
  the batch have a value absent from the target, and the count grows by one. A target
  without unique index, and a frame without the indexed column (NULL at the index):
  the second run of the same operation adds rows again.
\<close>

theorem ignore_count_counterexample:
  "length (absent_rows users (committed s_users) (batch_rows tmp_users dup_df)) = 2
   \<and> length (committed s_users) = 1
   \<and> length (committed (snd (to_mysql dup_df users tmp_users ''ignore'' s_users))) = 2
   \<and> length (committed (snd (to_mysql ex_df users_noidx tmp_users ''ignore'' s_users))) = 3
   \<and> length (committed (snd (to_mysql ex_df users_noidx tmp_users ''ignore''
        (snd (to_mysql ex_df users_noidx tmp_users ''ignore'' s_users))))) = 5
   \<and> length (committed (snd (to_mysql name_df users tmp_users ''ignore'' s_users))) = 2
   \<and> length (committed (snd (to_mysql name_df users tmp_users ''ignore''
        (snd (to_mysql name_df users tmp_users ''ignore'' s_users))))) = 3"
  by code_simp

text \<open>
  C3, amended. For scratch and target classes declared alike, a target with a unique
  index, a frame whose columns are columns of the scratch schema and whose stored rows
  are not NULL at the unique index, and runs in which the environment raises nothing:
  under the ignore policy the run succeeds, the row count of the target afterwards is
  the count before plus the number of distinct values at the unique index, among the
  rows of the batch, that no row of the target had; and the same operation run a
  second time leaves the target exactly as the first run left it.
\<close>

theorem ignore_counts_and_idempotent:
  assumes a: "aligned t temp pk"
    and cols: "set (df_columns df) \<subseteq> set (map c_name (columns temp))"
    and f: "faults s0 = []" and sc: "scratch s0 = None" and w: "working s0 = committed s0"
    and u: "unique_index t \<noteq> []"
    and n: "\<forall>r \<in> set (batch_rows temp df). Null \<notin> set (ukey t r)"
  shows "fst (to_mysql df t temp ''ignore'' s0) = Inr ()
       \<and> length (committed (snd (to_mysql df t temp ''ignore'' s0)))
           = length (committed s0)
             + card (ukey t ` set (batch_rows temp df) - ukey t ` set (committed s0))
       \<and> fst (to_mysql df t temp ''ignore'' (snd (to_mysql df t temp ''ignore'' s0))) = Inr ()
       \<and> committed (snd (to_mysql df t temp ''ignore'' (snd (to_mysql df t temp ''ignore'' s0))))
           = committed (snd (to_mysql df t temp ''ignore'' s0))"
proof -
  let ?st = "merge_stmt t pk ''ignore''" and ?b = "batch_rows temp df"
  have p: "''ignore'' = ''update'' \<or> ''ignore'' = ''ignore''" by simp
  from merge_rows_count [OF a p u n, of "committed s0"] obtain rows' where
    m: "merge_rows ?st (committed s0) ?b = Inr rows'"
    and l: "length rows' = length (committed s0) + card (ukey t ` set ?b - ukey t ` set (committed s0))"
    and k: "ukey t ` set rows' = ukey t ` set (committed s0) \<union> ukey t ` set ?b"
    by blast
  let ?s1 = "s0\<lparr>log := log s0 @ [EvOpen, EvCreate (tablename temp)]
                    @ map (\<lambda>ch. EvInsertChunk (length ch)) (chunked 1000 (df_rows df))
                    @ [EvExecute ?st, EvCommit, EvClose],
                committed := rows', working := rows'\<rparr>"
  have r1: "to_mysql df t temp ''ignore'' s0 = (Inr (), ?s1)"
    using a p cols f sc by (rule to_mysql_run) (use m w in simp)
  have "merge_rows ?st rows' ?b = Inr rows'"
    using a u n by (rule merge_rows_ignore_noop) (use k in auto)
  then have m2: "merge_rows ?st (working ?s1) (batch_rows temp df) = Inr rows'"
    by simp
  have r2: "to_mysql df t temp ''ignore'' ?s1 =
     (Inr (), ?s1\<lparr>log := log ?s1 @ [EvOpen, EvCreate (tablename temp)]
                    @ map (\<lambda>ch. EvInsertChunk (length ch)) (chunked 1000 (df_rows df))
                    @ [EvExecute ?st, EvCommit, EvClose],
                committed := rows', working := rows'\<rparr>)"
    using a p cols _ _ m2 by (rule to_mysql_run) (simp_all add: f sc)
  show ?thesis
    unfolding r1 using r2 l by simp
qed

theorem ignore_counts_and_idempotent_witness:
  "aligned users tmp_users (ex_col ''id'')
   \<and> set (df_columns ex_df) \<subseteq> set (map c_name (columns tmp_users))
   \<and> faults s_users = [] \<and> scratch s_users = None \<and> working s_users = committed s_users
   \<and> unique_index users \<noteq> []
   \<and> list_all (\<lambda>r. Null \<notin> set (ukey users r)) (batch_rows tmp_users ex_df)
   \<and> fst (to_mysql ex_df users tmp_users ''ignore'' s_users) = Inr ()
   \<and> length (committed (snd (to_mysql ex_df users tmp_users ''ignore'' s_users)))
        = length (committed s_users)
          + card (ukey users ` set (batch_rows tmp_users ex_df) - ukey users ` set (committed s_users))
   \<and> committed (snd (to_mysql ex_df users tmp_users ''ignore''
         (snd (to_mysql ex_df users tmp_users ''ignore'' s_users))))
        = committed (snd (to_mysql ex_df users tmp_users ''ignore'' s_users))
   \<and> card (ukey users ` set (batch_rows tmp_users ex_df) - ukey users ` set (committed s_users)) = 1"
proof -
  have h: "aligned users tmp_users (ex_col ''id'')"
    "set (df_columns ex_df) \<subseteq> set (map c_name (columns tmp_users))"
    "faults s_users = []" "scratch s_users = None" "working s_users = committed s_users"
    "unique_index users \<noteq> []"
    by code_simp+
  have n: "list_all (\<lambda>r. Null \<notin> set (ukey users r)) (batch_rows tmp_users ex_df)"
    by code_simp
  then have n': "\<forall>r \<in> set (batch_rows tmp_users ex_df). Null \<notin> set (ukey users r)"
    by (simp add: list_all_iff)
  have c: "card (ukey users ` set (batch_rows tmp_users ex_df) - ukey users ` set (committed s_users)) = 1"
    by code_simp
  from ignore_counts_and_idempotent [OF h n'] h n c show ?thesis by blast
qed

subsection \<open>The overwrite policy\<close>



end
